theory Spec2Isabelle
  imports Complex_Main "HOL-Library.AList" "HOL-Library.Sublist"
begin

section \<open>Python values\<close>

text \<open>
  The request handled by \<open>jsonsql.py\<close> is a decoded JSON document: dictionaries with
  string keys (kept as association lists in insertion order, so that \<open>list(d)[0]\<close> is the
  first entry), lists, strings, numbers, booleans and \<open>None\<close>. Tuples are included because
  the source tests \<open>isinstance(..., tuple)\<close>. A float is represented by its exact value; no
  arithmetic is done on it. A string is a list of characters, \<open>list(s)\<close> splits it into
  one-character strings.
\<close>

datatype pyval =
    PNone
  | PBool bool
  | PInt int
  | PFloat rat
  | PStr string
  | PList "pyval list"
  | PTuple "pyval list"
  | PDict "(string \<times> pyval) list"

text \<open>The type objects \<open>str\<close>, \<open>int\<close>, \<open>float\<close>, \<open>bool\<close> used as values of \<open>allowed_columns\<close>.\<close>

datatype kind = KStr | KInt | KFloat | KBool

datatype exn = TypeError | KeyError | IndexError | AttributeError

text \<open>
  What a call of \<open>logic_parse\<close> or \<open>sql_parse\<close> can do: return \<open>(True, text, params)\<close>,
  return \<open>(False, reason)\<close>, raise, or fall off the end of the function (Python then
  returns \<open>None\<close>).
\<close>

datatype outcome =
    Ok string "pyval list"
  | Fail string
  | Raised exn
  | NoResult

fun is_dict :: "pyval \<Rightarrow> bool" where
  "is_dict (PDict d) = True"
| "is_dict v = False"

fun is_list :: "pyval \<Rightarrow> bool" where
  "is_list (PList xs) = True"
| "is_list v = False"

text \<open>\<open>isinstance(value, valuetype)\<close>; \<open>bool\<close> is a subclass of \<open>int\<close>.\<close>

fun isinstance :: "pyval \<Rightarrow> kind \<Rightarrow> bool" where
  "isinstance (PStr s) KStr = True"
| "isinstance (PInt i) KInt = True"
| "isinstance (PBool b) KInt = True"
| "isinstance (PFloat r) KFloat = True"
| "isinstance (PBool b) KBool = True"
| "isinstance v k = False"

text \<open>\<open>len(x)\<close>: a \<open>TypeError\<close> for objects without a length.\<close>

fun py_len :: "pyval \<Rightarrow> exn + nat" where
  "py_len (PStr s) = Inr (length s)"
| "py_len (PList xs) = Inr (length xs)"
| "py_len (PTuple xs) = Inr (length xs)"
| "py_len (PDict d) = Inr (length d)"
| "py_len v = Inl TypeError"

text \<open>\<open>list(x)\<close> and \<open>tuple(x)\<close>: the keys of a dictionary, the characters of a string.\<close>

fun py_list :: "pyval \<Rightarrow> exn + pyval list" where
  "py_list (PStr s) = Inr (map (\<lambda>c. PStr [c]) s)"
| "py_list (PList xs) = Inr xs"
| "py_list (PTuple xs) = Inr xs"
| "py_list (PDict d) = Inr (map (\<lambda>kv. PStr (fst kv)) d)"
| "py_list v = Inl TypeError"

text \<open>\<open>list(x)[0]\<close>: an \<open>IndexError\<close> on an empty container.\<close>

definition py_first :: "pyval \<Rightarrow> exn + pyval" where
  "py_first x =
     (case py_list x of
        Inl e \<Rightarrow> Inl e
      | Inr [] \<Rightarrow> Inl IndexError
      | Inr (y # ys) \<Rightarrow> Inr y)"

fun hashable :: "pyval \<Rightarrow> bool" where
  "hashable (PList xs) = False"
| "hashable (PDict d) = False"
| "hashable (PTuple xs) = (\<forall>x \<in> set xs. hashable x)"
| "hashable v = True"

text \<open>\<open>xs[i]\<close> on a sequence: an index below zero counts from the end.\<close>

definition py_index :: "'a list \<Rightarrow> int \<Rightarrow> exn + 'a" where
  "py_index xs i =
     (if 0 \<le> i \<and> i < int (length xs) then Inr (xs ! nat i)
      else if i < 0 \<and> - int (length xs) \<le> i then Inr (xs ! nat (int (length xs) + i))
      else Inl IndexError)"

text \<open>
  \<open>x[key]\<close>. A dictionary of the request has string keys only, so any other hashable
  key is missing from it; a sequence accepts integer (and boolean) indices only.
\<close>

fun py_getitem :: "pyval \<Rightarrow> pyval \<Rightarrow> exn + pyval" where
  "py_getitem (PDict d) key =
     (if \<not> hashable key then Inl TypeError
      else case key of
        PStr k \<Rightarrow> (case map_of d k of None \<Rightarrow> Inl KeyError | Some v \<Rightarrow> Inr v)
      | _ \<Rightarrow> Inl KeyError)"
| "py_getitem (PList xs) key =
     (case key of
        PInt i \<Rightarrow> py_index xs i
      | PBool b \<Rightarrow> py_index xs (if b then 1 else 0)
      | _ \<Rightarrow> Inl TypeError)"
| "py_getitem (PTuple xs) key =
     (case key of
        PInt i \<Rightarrow> py_index xs i
      | PBool b \<Rightarrow> py_index xs (if b then 1 else 0)
      | _ \<Rightarrow> Inl TypeError)"
| "py_getitem (PStr s) key =
     (case key of
        PInt i \<Rightarrow> map_sum id (\<lambda>c. PStr [c]) (py_index s i)
      | PBool b \<Rightarrow> map_sum id (\<lambda>c. PStr [c]) (py_index s (if b then 1 else 0))
      | _ \<Rightarrow> Inl TypeError)"
| "py_getitem v key = Inl TypeError"

text \<open>\<open>x in xs\<close> for a tuple or list \<open>xs\<close> of strings: only an equal string is a member.\<close>

fun in_strs :: "pyval \<Rightarrow> string list \<Rightarrow> bool" where
  "in_strs (PStr s) xs = (s \<in> set xs)"
| "in_strs v xs = False"

text \<open>Decimal digits of a natural number, for \<open>str\<close> of an integer.\<close>

function nat_str :: "nat \<Rightarrow> string" where
  "nat_str n =
     (if n < 10 then [char_of (48 + n)]
      else nat_str (n div 10) @ [char_of (48 + n mod 10)])"
  by pat_completeness auto
termination
  by (relation "measure id") auto

declare nat_str.simps [simp del]

text \<open>
  \<open>str(x)\<close>, as an f-string formats \<open>x\<close>. The text of a float, a list, a tuple or a
  dictionary is left unspecified: no result below depends on it.
\<close>

fun py_str :: "pyval \<Rightarrow> string" where
  "py_str (PStr s) = s"
| "py_str PNone = ''None''"
| "py_str (PBool b) = (if b then ''True'' else ''False'')"
| "py_str (PInt i) = (if i < 0 then CHR ''-'' # nat_str (nat (- i)) else nat_str (nat i))"

text \<open>\<open>sep.join(xs)\<close> on strings.\<close>

fun join :: "string \<Rightarrow> string list \<Rightarrow> string" where
  "join sep [] = []"
| "join sep [x] = x"
| "join sep (x # y # ys) = x @ sep @ join sep (y # ys)"

text \<open>\<open>s.upper()\<close> on ASCII letters.\<close>

definition upper :: "string \<Rightarrow> string" where
  "upper s =
     map (\<lambda>c. if 97 \<le> (of_char c :: nat) \<and> (of_char c :: nat) \<le> 122
               then char_of ((of_char c :: nat) - 32) else c) s"

section \<open>The policy object\<close>

text \<open>
  The attributes of a \<open>JsonSQL\<close> instance. The whitelists hold strings; a table maps to
  its list of permitted columns, where the entry \<open>None\<close> is Python's \<open>None\<close> (a table
  given as a bare name is stored with the list \<open>[None]\<close>).
\<close>

record JsonSQL =
  ALLOWED_QUERIES :: "string list"
  ALLOWED_ITEMS :: "string list"
  ALLOWED_TABLES :: "(string \<times> string option list) list"
  ALLOWED_CONNECTIONS :: "string list"
  ALLOWED_COLUMNS :: "(string \<times> kind) list"
  LOGICAL :: "string list"
  COMPARISON :: "string list"
  SPECIAL_COMPARISON :: "string list"
  AGGREGATES :: "string list"

text \<open>An entry of the constructor's \<open>allowed_tables\<close>: a string, a dictionary, or neither.\<close>

datatype table_value = Columns "string list" | NotAList

datatype table_arg = TableName string | TableDict "(string \<times> table_value) list" | TableOther

text \<open>
  The loop of \<open>__init__\<close> that builds \<open>table_dict\<close>. An empty dictionary makes
  \<open>list(table)[0]\<close> raise; a dictionary whose first value is not a list reaches
  \<open>allowed_tables[table]\<close>, which indexes a list with a dictionary and raises.
\<close>

fun table_dict_loop ::
  "table_arg list \<Rightarrow> (string \<times> string option list) list \<Rightarrow>
   exn + (string \<times> string option list) list" where
  "table_dict_loop [] table_dict = Inr table_dict"
| "table_dict_loop (TableDict [] # rest) table_dict = Inl IndexError"
| "table_dict_loop (TableDict ((name, Columns cols) # others) # rest) table_dict =
     table_dict_loop rest (AList.update name (map Some cols) table_dict)"
| "table_dict_loop (TableDict ((name, NotAList) # others) # rest) table_dict = Inl TypeError"
| "table_dict_loop (TableName name # rest) table_dict =
     table_dict_loop rest (AList.update name [None] table_dict)"
| "table_dict_loop (TableOther # rest) table_dict = Inl TypeError"

text \<open>The attribute assignments at the end of \<open>__init__\<close>.\<close>

definition policy ::
  "string list \<Rightarrow> string list \<Rightarrow> (string \<times> string option list) list \<Rightarrow> string list \<Rightarrow>
   (string \<times> kind) list \<Rightarrow> JsonSQL" where
  "policy allowed_queries allowed_items table_dict allowed_connections allowed_columns =
     \<lparr> ALLOWED_QUERIES = allowed_queries,
       ALLOWED_ITEMS = allowed_items,
       ALLOWED_TABLES = table_dict,
       ALLOWED_CONNECTIONS = allowed_connections,
       ALLOWED_COLUMNS = allowed_columns,
       LOGICAL = [''AND'', ''OR''],
       COMPARISON = [''='', ''>'', ''<'', ''>='', ''<='', ''<>'', ''!=''],
       SPECIAL_COMPARISON = [''BETWEEN'', ''IN''],
       AGGREGATES = [''MIN'', ''MAX'', ''SUM'', ''AVG'', ''COUNT''] \<rparr>"

definition init ::
  "string list \<Rightarrow> string list \<Rightarrow> table_arg list \<Rightarrow> string list \<Rightarrow> (string \<times> kind) list \<Rightarrow>
   exn + JsonSQL" where
  "init allowed_queries allowed_items allowed_tables allowed_connections allowed_columns =
     (case table_dict_loop allowed_tables [] of
        Inl e \<Rightarrow> Inl e
      | Inr table_dict \<Rightarrow>
          Inr (policy allowed_queries allowed_items table_dict allowed_connections
                 allowed_columns))"

section \<open>Validators\<close>

text \<open>
  \<open>value in self.ALLOWED_COLUMNS\<close>, with the \<open>TypeError\<close> of an unhashable value caught:
  only a string can be a key of the dictionary.
\<close>

fun is_another_column :: "JsonSQL \<Rightarrow> pyval \<Rightarrow> bool" where
  "is_another_column P (PStr s) = (map_of (ALLOWED_COLUMNS P) s \<noteq> None)"
| "is_another_column P v = False"

definition is_valid_aggregate :: "JsonSQL \<Rightarrow> pyval \<Rightarrow> exn + bool" where
  "is_valid_aggregate P aggregate =
     (if \<not> is_dict aggregate then Inr False
      else case py_first aggregate of
        Inl e \<Rightarrow> Inl e
      | Inr operation \<Rightarrow>
          (case py_getitem aggregate operation of
             Inl e \<Rightarrow> Inl e
           | Inr value \<Rightarrow>
               if \<not> in_strs operation (AGGREGATES P) then Inr False
               else Inr (is_another_column P value)))"

definition is_valid_value :: "JsonSQL \<Rightarrow> pyval \<Rightarrow> kind \<Rightarrow> exn + bool" where
  "is_valid_value P value valuetype =
     (if is_dict value then is_valid_aggregate P value
      else if \<not> is_list value \<and> is_another_column P value then Inr True
      else Inr (isinstance value valuetype))"

fun all_values_allowed :: "JsonSQL \<Rightarrow> pyval list \<Rightarrow> kind \<Rightarrow> exn + bool" where
  "all_values_allowed P [] valuetype = Inr True"
| "all_values_allowed P (entry # rest) valuetype =
     (case is_valid_value P entry valuetype of
        Inl e \<Rightarrow> Inl e
      | Inr b \<Rightarrow> if \<not> b then Inr False else all_values_allowed P rest valuetype)"

definition is_special_comparison :: "JsonSQL \<Rightarrow> pyval \<Rightarrow> pyval \<Rightarrow> kind \<Rightarrow> exn + bool" where
  "is_special_comparison P comparator value valuetype =
     (case value of
        PList xs \<Rightarrow>
          (case all_values_allowed P xs valuetype of
             Inl e \<Rightarrow> Inl e
           | Inr b \<Rightarrow>
               if \<not> b then Inr False
               else if comparator = PStr ''BETWEEN'' \<and> length xs = 2 then Inr True
               else if comparator = PStr ''IN'' \<and> length xs > 0 then Inr True
               else Inr False)
      | _ \<Rightarrow> Inr False)"

definition is_valid_comparison :: "JsonSQL \<Rightarrow> string \<Rightarrow> pyval \<Rightarrow> exn + bool" where
  "is_valid_comparison P column comparison =
     (case py_first comparison of
        Inl e \<Rightarrow> Inl e
      | Inr comparator \<Rightarrow>
          if \<not> in_strs comparator (COMPARISON P) \<and> \<not> in_strs comparator (SPECIAL_COMPARISON P)
          then Inr False
          else (case py_getitem comparison comparator of
                  Inl e \<Rightarrow> Inl e
                | Inr value \<Rightarrow>
                    (case map_of (ALLOWED_COLUMNS P) column of
                       None \<Rightarrow> Inl KeyError
                     | Some valuetype \<Rightarrow>
                         (case is_valid_value P value valuetype of
                            Inl e \<Rightarrow> Inl e
                          | Inr b \<Rightarrow>
                              if b then Inr True
                              else is_special_comparison P comparator value valuetype))))"

definition get_sql_comparator :: "pyval \<Rightarrow> pyval" where
  "get_sql_comparator comparator = (if comparator \<noteq> PStr ''!='' then comparator else PStr ''<>'')"

definition is_value_in_allowed_categories :: "JsonSQL \<Rightarrow> string \<Rightarrow> bool" where
  "is_value_in_allowed_categories P value \<longleftrightarrow>
     map_of (ALLOWED_COLUMNS P) value \<noteq> None
     \<or> value \<in> set (LOGICAL P)
     \<or> value \<in> set (SPECIAL_COMPARISON P)
     \<or> value \<in> set (COMPARISON P)"

section \<open>The logic compiler\<close>

text \<open>\<open>str(valuetype)\<close> of a type object.\<close>

fun kind_str :: "kind \<Rightarrow> string" where
  "kind_str KStr = ''<class 'str'>''"
| "kind_str KInt = ''<class 'int'>''"
| "kind_str KFloat = ''<class 'float'>''"
| "kind_str KBool = ''<class 'bool'>''"

definition placeholders :: "nat \<Rightarrow> string" where
  "placeholders num_placeholders =
     (if num_placeholders = 1 then ''?'' else join '','' (replicate num_placeholders ''?''))"

text \<open>
  The branch of \<open>logic_parse\<close> taken when \<open>value\<close> is a known column whose comparison
  is not valid: the reason names a bad comparator, or else the expected type.
\<close>

definition invalid_comparison :: "JsonSQL \<Rightarrow> string \<Rightarrow> pyval \<Rightarrow> outcome" where
  "invalid_comparison P value comparison =
     (let bad_type =
        (case map_of (ALLOWED_COLUMNS P) value of
           None \<Rightarrow> Raised KeyError
         | Some valuetype \<Rightarrow> Fail (''Bad '' @ value @ '', non '' @ kind_str valuetype))
      in if is_dict comparison then
           (case py_first comparison of
              Inl e \<Rightarrow> Raised e
            | Inr value0 \<Rightarrow>
                if \<not> in_strs value0 (COMPARISON P) \<and> \<not> in_strs value0 (SPECIAL_COMPARISON P)
                then Fail (''Non Valid comparitor - '' @ py_str value0)
                else bad_type)
         else bad_type)"

text \<open>
  The branch of \<open>logic_parse\<close> taken when \<open>is_valid_comparison\<close> holds: the five ways a
  comparison is rendered, and the final \<open>Comparitor Error\<close>.
\<close>

definition comparison_sql :: "JsonSQL \<Rightarrow> string \<Rightarrow> pyval \<Rightarrow> outcome" where
  "comparison_sql P value comparison =
     (case py_first comparison of
        Inl e \<Rightarrow> Raised e
      | Inr comparator \<Rightarrow>
          (let adjusted_comparator = get_sql_comparator comparator in
           case py_getitem comparison comparator of
             Inl e \<Rightarrow> Raised e
           | Inr operand \<Rightarrow>
               if in_strs comparator (COMPARISON P) \<and> \<not> is_another_column P operand
                  \<and> \<not> is_dict operand
               then Ok (value @ '' '' @ py_str adjusted_comparator @ '' ?'')
                       (case operand of PTuple xs \<Rightarrow> xs | _ \<Rightarrow> [operand])
               else if in_strs comparator (COMPARISON P) \<and> is_another_column P operand
               then Ok (value @ '' '' @ py_str adjusted_comparator @ '' '' @ py_str operand) []
               else (case py_first operand of
                 Inl e \<Rightarrow> Raised e
               | Inr aggregate_function \<Rightarrow>
                   if in_strs aggregate_function (AGGREGATES P) then
                     (case py_getitem operand aggregate_function of
                        Inl e \<Rightarrow> Raised e
                      | Inr aggregate_argument \<Rightarrow>
                          Ok (value @ '' '' @ py_str adjusted_comparator @ '' ''
                                @ py_str aggregate_function @ ''('' @ py_str aggregate_argument
                                @ '')'') [])
                   else if in_strs comparator (SPECIAL_COMPARISON P)
                           \<and> comparator = PStr ''BETWEEN'' then
                     (case py_list operand of
                        Inl e \<Rightarrow> Raised e
                      | Inr params \<Rightarrow> Ok (value @ '' BETWEEN ? AND ?'') params)
                   else if in_strs comparator (SPECIAL_COMPARISON P)
                           \<and> comparator = PStr ''IN'' then
                     (case py_len operand of
                        Inl e \<Rightarrow> Raised e
                      | Inr num_placeholders \<Rightarrow>
                          (case py_list operand of
                             Inl e \<Rightarrow> Raised e
                           | Inr params \<Rightarrow>
                               Ok (value @ '' IN ('' @ placeholders num_placeholders @ '')'')
                                  params))
                   else Fail (''Comparitor Error - '' @ py_str comparator))))"

text \<open>
  \<open>logic_parse\<close>, with the loop over the children of a logical node as \<open>parse_cases\<close>:
  it stops at the first child that does not succeed and hands that child's outcome back
  (a child that returned \<open>None\<close> makes \<open>evaluation[0]\<close> raise a \<open>TypeError\<close>).
  \<open>json_input[value]\<close> is the value of the first entry, \<open>value\<close> being the first key.
\<close>

fun logic_parse :: "JsonSQL \<Rightarrow> pyval \<Rightarrow> outcome"
  and parse_cases :: "JsonSQL \<Rightarrow> pyval list \<Rightarrow> outcome + (string \<times> pyval list) list" where
  "logic_parse P (PDict []) = Fail ''Nothing To Compute''"
| "logic_parse P (PDict ((value, comparison) # rest)) =
     (if \<not> is_value_in_allowed_categories P value then Fail (''Invalid Input - '' @ value)
      else if value \<in> set (LOGICAL P) \<and> \<not> is_list comparison
      then Fail (''Bad '' @ value @ '', non list'')
      else (case (if map_of (ALLOWED_COLUMNS P) value \<noteq> None
                  then is_valid_comparison P value comparison else Inr True) of
        Inl e \<Rightarrow> Raised e
      | Inr valid_if_column \<Rightarrow>
          if \<not> valid_if_column then invalid_comparison P value comparison
          else (case is_valid_comparison P value comparison of
            Inl e \<Rightarrow> Raised e
          | Inr valid \<Rightarrow>
              if valid then comparison_sql P value comparison
              else if value \<in> set (LOGICAL P) then
                (case comparison of
                   PList cases \<Rightarrow>
                     if length cases < 2 then Fail ''Invalid boolean length, must be >= 2''
                     else (case parse_cases P cases of
                             Inl safe \<Rightarrow> safe
                           | Inr data \<Rightarrow>
                               Ok (''('' @ join ('' '' @ upper value @ '' '') (map fst data) @ '')'')
                                  (concat (map snd data)))
                 | _ \<Rightarrow> NoResult)
              else NoResult)))"
| "logic_parse P (PStr s) = (if s = [] then Fail ''Nothing To Compute'' else Raised AttributeError)"
| "logic_parse P (PList xs) = (if xs = [] then Fail ''Nothing To Compute'' else Raised AttributeError)"
| "logic_parse P (PTuple xs) = (if xs = [] then Fail ''Nothing To Compute'' else Raised AttributeError)"
| "logic_parse P PNone = Raised TypeError"
| "logic_parse P (PBool b) = Raised TypeError"
| "logic_parse P (PInt i) = Raised TypeError"
| "logic_parse P (PFloat r) = Raised TypeError"
| "parse_cases P [] = Inr []"
| "parse_cases P (c # cases) =
     (case logic_parse P c of
        Ok text params \<Rightarrow>
          (case parse_cases P cases of
             Inl safe \<Rightarrow> Inl safe
           | Inr data \<Rightarrow> Inr ((text, params) # data))
      | Fail reason \<Rightarrow> Inl (Fail reason)
      | Raised e \<Rightarrow> Inl (Raised e)
      | NoResult \<Rightarrow> Inl (Raised TypeError))"

section \<open>The query compiler\<close>

text \<open>
  A call \<open>self.sql_parse(json_input)\<close> works on two objects: the policy \<open>self\<close> and the
  request dictionary \<open>json_input\<close>, whose \<open>items\<close> list the method rewrites in place. The
  model passes both in and hands both back.
\<close>

record call_state =
  self :: JsonSQL
  json_input :: "(string \<times> pyval) list"

text \<open>
  The loop over \<open>required_inputs\<close> (\<open>query: str\<close>, \<open>items: list\<close>, \<open>table: str\<close>, in this
  order), unrolled; on success the three values are returned with their types.
\<close>

definition required_inputs ::
  "(string \<times> pyval) list \<Rightarrow> outcome + (string \<times> pyval list \<times> string)" where
  "required_inputs j =
     (case map_of j ''query'' of
        None \<Rightarrow> Inl (Fail ''Missing argument query'')
      | Some (PStr query) \<Rightarrow>
          (case map_of j ''items'' of
             None \<Rightarrow> Inl (Fail ''Missing argument items'')
           | Some (PList items) \<Rightarrow>
               (case map_of j ''table'' of
                  None \<Rightarrow> Inl (Fail ''Missing argument table'')
                | Some (PStr table) \<Rightarrow> Inr (query, items, table)
                | Some _ \<Rightarrow> Inl (Fail ''table not right type, expected <class 'str'>''))
           | Some _ \<Rightarrow> Inl (Fail ''items not right type, expected <class 'list'>''))
      | Some _ \<Rightarrow> Inl (Fail ''query not right type, expected <class 'str'>''))"

text \<open>\<open>x in self.ALLOWED_TABLES[table]\<close>: the list holds strings, or \<open>None\<close>.\<close>

fun in_columns :: "pyval \<Rightarrow> string option list \<Rightarrow> bool" where
  "in_columns (PStr s) cols = (Some s \<in> set cols)"
| "in_columns PNone cols = (None \<in> set cols)"
| "in_columns v cols = False"

text \<open>
  The loop over the items. It returns the outcome of an early \<open>return\<close> (or \<open>None\<close> when
  the loop runs to its end) and the list as the assignments
  \<open>json_input["items"][index] = ...\<close> have left it.
\<close>

fun check_items ::
  "JsonSQL \<Rightarrow> string option list \<Rightarrow> pyval list \<Rightarrow> outcome option \<times> pyval list" where
  "check_items P cols [] = (None, [])"
| "check_items P cols (item # rest) =
     (if \<not> in_strs item (ALLOWED_ITEMS P) \<and> \<not> in_columns item cols then
        (if is_dict item then
           (case py_first item of
              Inl e \<Rightarrow> (Some (Raised e), item # rest)
            | Inr aggregate_function \<Rightarrow>
                (if in_strs aggregate_function (AGGREGATES P) then
                   (case py_getitem item aggregate_function of
                      Inl e \<Rightarrow> (Some (Raised e), item # rest)
                    | Inr aggregate_argument \<Rightarrow>
                        (if in_strs aggregate_argument (ALLOWED_ITEMS P)
                            \<or> in_columns aggregate_argument cols
                         then (case check_items P cols rest of
                                 (early, rest') \<Rightarrow>
                                   (early,
                                    PStr (py_str aggregate_function @ ''(''
                                          @ py_str aggregate_argument @ '')'') # rest'))
                         else (Some (Fail (''Item not allowed - '' @ py_str aggregate_argument)),
                               item # rest)))
                 else (Some (Fail (''Item not allowed - '' @ py_str item)), item # rest)))
         else (Some (Fail (''Item not allowed - '' @ py_str item)), item # rest))
      else (case check_items P cols rest of (early, rest') \<Rightarrow> (early, item # rest')))"

text \<open>The strings of a list, for \<open>','.join(...)\<close>: a \<open>TypeError\<close> if an entry is no string.\<close>

fun strs_of :: "pyval list \<Rightarrow> exn + string list" where
  "strs_of [] = Inr []"
| "strs_of (PStr s # rest) =
     (case strs_of rest of Inl e \<Rightarrow> Inl e | Inr ss \<Rightarrow> Inr (s # ss))"
| "strs_of (v # rest) = Inl TypeError"

text \<open>
  The end of \<open>sql_parse\<close>: the base statement and the optional filter.
  \<open>json_input['connection']\<close> is read only after \<open>logic_parse\<close> has succeeded, and
  raises a \<open>KeyError\<close> when the field is missing.
\<close>

definition statement_sql ::
  "JsonSQL \<Rightarrow> (string \<times> pyval) list \<Rightarrow> string \<Rightarrow> pyval list \<Rightarrow> string \<Rightarrow> outcome" where
  "statement_sql P j query items table =
     (case strs_of items of
        Inl e \<Rightarrow> Raised e
      | Inr strs \<Rightarrow>
          (let sql_string = query @ '' '' @ join '','' strs @ '' FROM '' @ table in
           (case map_of j ''logic'' of
              None \<Rightarrow> Ok sql_string []
            | Some logic \<Rightarrow>
                (case logic_parse P logic of
                   Raised e \<Rightarrow> Raised e
                 | NoResult \<Rightarrow> Raised TypeError
                 | Fail reason \<Rightarrow> Fail (''Logic Fail - '' @ reason)
                 | Ok text params \<Rightarrow>
                     (case map_of j ''connection'' of
                        None \<Rightarrow> Raised KeyError
                      | Some connection \<Rightarrow>
                          Ok (sql_string @ '' '' @ py_str connection @ '' '' @ text)
                             params)))))"

text \<open>The connection check that follows the loop over the items, and then the above.\<close>

definition assemble ::
  "JsonSQL \<Rightarrow> (string \<times> pyval) list \<Rightarrow> string \<Rightarrow> pyval list \<Rightarrow> string \<Rightarrow> outcome" where
  "assemble P j query items table =
     (case map_of j ''connection'' of
        None \<Rightarrow> statement_sql P j query items table
      | Some connection \<Rightarrow>
          (if \<not> in_strs connection (ALLOWED_CONNECTIONS P)
           then Fail (''Connection not allowed - '' @ py_str connection)
           else statement_sql P j query items table))"

definition sql_parse :: "call_state \<Rightarrow> outcome \<times> call_state" where
  "sql_parse s =
     (case required_inputs (json_input s) of
        Inl r \<Rightarrow> (r, s)
      | Inr (query, items, table) \<Rightarrow>
          (if query \<notin> set (ALLOWED_QUERIES (self s))
           then (Fail (''Query not allowed - '' @ query), s)
           else (case map_of (ALLOWED_TABLES (self s)) table of
                   None \<Rightarrow> (Fail (''Table not allowed - '' @ table), s)
                 | Some cols \<Rightarrow>
                     (case check_items (self s) cols items of
                        (early, items') \<Rightarrow>
                          (let s' = s\<lparr>json_input :=
                                        AList.update ''items'' (PList items') (json_input s)\<rparr>
                           in (case early of
                                 Some r \<Rightarrow> (r, s')
                               | None \<Rightarrow>
                                   (assemble (self s') (json_input s') query items' table,
                                    s')))))))"

section \<open>The policy and request of Scenario A\<close>

definition scenario_policy :: JsonSQL where
  "scenario_policy =
     policy [''SELECT''] [''*''] [(''images'', [])] [''WHERE'']
       [(''creature'', KStr), (''userID'', KInt)]"

definition scenario_logic :: pyval where
  "scenario_logic =
     PDict [(''AND'',
       PList [PDict [(''creature'', PDict [(''='', PStr ''owlbear'')])],
              PDict [(''OR'',
                PList [PDict [(''userID'', PDict [(''='', PInt 555)])],
                       PDict [(''userID'', PDict [(''='', PInt 111)])]])]])]"

definition scenario_request :: "(string \<times> pyval) list" where
  "scenario_request =
     [(''query'', PStr ''SELECT''),
      (''items'', PList [PStr ''*'']),
      (''table'', PStr ''images''),
      (''connection'', PStr ''WHERE''),
      (''logic'', scenario_logic)]"

definition aggregate_request :: "(string \<times> pyval) list" where
  "aggregate_request =
     [(''query'', PStr ''SELECT''),
      (''items'', PList [PDict [(''COUNT'', PStr ''*'')]]),
      (''table'', PStr ''images'')]"

text \<open>
  The policy of the repository's own test: the table \<open>images\<close> given as a bare name,
  and a request whose only item is the aggregate node \<open>{"COUNT": null}\<close>.
\<close>

definition bare_policy :: JsonSQL where
  "bare_policy =
     policy [''SELECT''] [''*''] [(''images'', [None])] [''WHERE'']
       [(''creature'', KStr), (''userID'', KInt)]"

definition null_aggregate_request :: "(string \<times> pyval) list" where
  "null_aggregate_request =
     [(''query'', PStr ''SELECT''),
      (''items'', PList [PDict [(''COUNT'', PNone)]]),
      (''table'', PStr ''images'')]"

section \<open>The whitelist grammar of the specification\<close>

text \<open>
  These definitions follow the specification, not the source: the comparator
  normalisation, and the texts that the specification's compilation algorithm can emit,
  in which every identifier is drawn from the policy and a bound value is the token
  \<open>?\<close>.
\<close>

definition normalize_comparator :: "string \<Rightarrow> string" where
  "normalize_comparator c = (if c = ''!='' then ''<>'' else c)"

inductive whitelisted_fragment :: "JsonSQL \<Rightarrow> string \<Rightarrow> bool" for P where
  bound:
    "map_of (ALLOWED_COLUMNS P) c \<noteq> None \<Longrightarrow> op \<in> set (COMPARISON P) \<Longrightarrow>
     whitelisted_fragment P (c @ '' '' @ normalize_comparator op @ '' ?'')"
| column:
    "map_of (ALLOWED_COLUMNS P) c \<noteq> None \<Longrightarrow> op \<in> set (COMPARISON P) \<Longrightarrow>
     map_of (ALLOWED_COLUMNS P) d \<noteq> None \<Longrightarrow>
     whitelisted_fragment P (c @ '' '' @ normalize_comparator op @ '' '' @ d)"
| aggregate:
    "map_of (ALLOWED_COLUMNS P) c \<noteq> None \<Longrightarrow>
     op \<in> set (COMPARISON P) \<union> set (SPECIAL_COMPARISON P) \<Longrightarrow>
     f \<in> set (AGGREGATES P) \<Longrightarrow> map_of (ALLOWED_COLUMNS P) d \<noteq> None \<Longrightarrow>
     whitelisted_fragment P
       (c @ '' '' @ normalize_comparator op @ '' '' @ f @ ''('' @ d @ '')'')"
| between:
    "map_of (ALLOWED_COLUMNS P) c \<noteq> None \<Longrightarrow>
     whitelisted_fragment P (c @ '' BETWEEN ? AND ?'')"
| among:
    "map_of (ALLOWED_COLUMNS P) c \<noteq> None \<Longrightarrow>
     whitelisted_fragment P (c @ '' IN ('' @ placeholders n @ '')'')"
| logical:
    "connector \<in> set (LOGICAL P) \<Longrightarrow> 2 \<le> length fs \<Longrightarrow>
     (\<forall>f \<in> set fs. whitelisted_fragment P f) \<Longrightarrow>
     whitelisted_fragment P (''('' @ join ('' '' @ connector @ '' '') fs @ '')'')"

inductive whitelisted_item :: "JsonSQL \<Rightarrow> string option list \<Rightarrow> string \<Rightarrow> bool"
  for P cols where
  listed:
    "s \<in> set (ALLOWED_ITEMS P) \<or> Some s \<in> set cols \<Longrightarrow> whitelisted_item P cols s"
| aggregate_of:
    "f \<in> set (AGGREGATES P) \<Longrightarrow> a \<in> set (ALLOWED_ITEMS P) \<or> Some a \<in> set cols \<Longrightarrow>
     whitelisted_item P cols (f @ ''('' @ a @ '')'')"

inductive whitelisted_statement :: "JsonSQL \<Rightarrow> string \<Rightarrow> bool" for P where
  plain:
    "q \<in> set (ALLOWED_QUERIES P) \<Longrightarrow> map_of (ALLOWED_TABLES P) t = Some cols \<Longrightarrow>
     (\<forall>i \<in> set items. whitelisted_item P cols i) \<Longrightarrow>
     whitelisted_statement P (q @ '' '' @ join '','' items @ '' FROM '' @ t)"
| filtered:
    "q \<in> set (ALLOWED_QUERIES P) \<Longrightarrow> map_of (ALLOWED_TABLES P) t = Some cols \<Longrightarrow>
     (\<forall>i \<in> set items. whitelisted_item P cols i) \<Longrightarrow>
     connection \<in> set (ALLOWED_CONNECTIONS P) \<Longrightarrow> whitelisted_fragment P f \<Longrightarrow>
     whitelisted_statement P
       (q @ '' '' @ join '','' items @ '' FROM '' @ t @ '' '' @ connection @ '' '' @ f)"

section \<open>The request after a call\<close>

text \<open>
  What a call of \<open>sql_parse\<close> leaves in the items list, in the words of the amended
  claim C6: an item is listed when it is in \<open>allowed_items\<close> or in the column list of the
  table; an aggregate node \<open>{FUNC: arg}\<close> with an aggregate tag and a listed argument is
  rendered as \<open>FUNC(arg)\<close>; the items are read in order up to the first one that is
  neither, and the rendered ones are replaced.
\<close>

definition item_listed :: "JsonSQL \<Rightarrow> string option list \<Rightarrow> pyval \<Rightarrow> bool" where
  "item_listed P cols item \<longleftrightarrow> in_strs item (ALLOWED_ITEMS P) \<or> in_columns item cols"

fun rendered_aggregate :: "JsonSQL \<Rightarrow> string option list \<Rightarrow> pyval \<Rightarrow> string option" where
  "rendered_aggregate P cols (PDict ((f, arg) # rest)) =
     (if f \<in> set (AGGREGATES P) \<and> item_listed P cols arg
      then Some (f @ ''('' @ py_str arg @ '')'') else None)"
| "rendered_aggregate P cols item = None"

definition item_accepted :: "JsonSQL \<Rightarrow> string option list \<Rightarrow> pyval \<Rightarrow> bool" where
  "item_accepted P cols item \<longleftrightarrow>
     item_listed P cols item \<or> rendered_aggregate P cols item \<noteq> None"

definition item_after :: "JsonSQL \<Rightarrow> string option list \<Rightarrow> pyval \<Rightarrow> pyval" where
  "item_after P cols item =
     (if item_listed P cols item then item
      else case rendered_aggregate P cols item of Some s \<Rightarrow> PStr s | None \<Rightarrow> item)"

definition items_after :: "JsonSQL \<Rightarrow> string option list \<Rightarrow> pyval list \<Rightarrow> pyval list" where
  "items_after P cols items =
     map (item_after P cols) (takeWhile (item_accepted P cols) items)
     @ dropWhile (item_accepted P cols) items"

definition request_after :: "call_state \<Rightarrow> (string \<times> pyval) list" where
  "request_after s =
     (case required_inputs (json_input s) of
        Inl r \<Rightarrow> json_input s
      | Inr (q, items, t) \<Rightarrow>
          (if q \<notin> set (ALLOWED_QUERIES (self s)) then json_input s
           else (case map_of (ALLOWED_TABLES (self s)) t of
                   None \<Rightarrow> json_input s
                 | Some cols \<Rightarrow>
                     AList.update ''items'' (PList (items_after (self s) cols items))
                       (json_input s))))"

section \<open>Objects and references\<close>

text \<open>
  Python passes objects by reference: the lists the caller gave to the constructor, the
  dictionaries of the instance and the items list of a request are objects that several
  names can refer to, and a write through one name is seen through all. This second model
  keeps these objects in a store, so that a write of the compilers can reach any list
  object, a list of the policy included. The values inside an object stay trees.
\<close>

type_synonym addr = nat

text \<open>
  The attributes of an instance: references to the four containers given by the caller
  and to \<open>table_dict\<close>, and the four tuples (a tuple cannot be written to).
\<close>

record attributes =
  queries_ref :: addr
  items_ref :: addr
  tables_ref :: addr
  connections_ref :: addr
  columns_ref :: addr
  logical_tuple :: "string list"
  comparison_tuple :: "string list"
  special_tuple :: "string list"
  aggregates_tuple :: "string list"

text \<open>
  An object of the store: a list, the dictionary \<open>table_dict\<close> (each table refers to
  the list object of its columns), the dictionary \<open>allowed_columns\<close>, or an instance.
\<close>

datatype obj =
    ListObj "pyval list"
  | TablesObj "(string \<times> addr) list"
  | ColumnsObj "(string \<times> kind) list"
  | InstanceObj attributes

text \<open>The store; every address below \<open>next_free\<close> is in use.\<close>

record heap =
  cells :: "addr \<Rightarrow> obj"
  next_free :: addr

fun list_of :: "obj \<Rightarrow> pyval list" where
  "list_of (ListObj xs) = xs"
| "list_of ob = []"

definition list_at :: "heap \<Rightarrow> addr \<Rightarrow> pyval list" where
  "list_at h a = list_of (cells h a)"

text \<open>
  The policy as the attributes of the instance describe it in the current store. The
  lists of the policy hold strings (and \<open>None\<close>, in a column list), as in the record
  \<open>JsonSQL\<close>; an entry of another kind is not represented.
\<close>

fun strings :: "pyval list \<Rightarrow> string list" where
  "strings [] = []"
| "strings (PStr s # xs) = s # strings xs"
| "strings (v # xs) = strings xs"

fun column_entries :: "pyval list \<Rightarrow> string option list" where
  "column_entries [] = []"
| "column_entries (PStr s # xs) = Some s # column_entries xs"
| "column_entries (PNone # xs) = None # column_entries xs"
| "column_entries (v # xs) = column_entries xs"

fun tables_of :: "heap \<Rightarrow> obj \<Rightarrow> (string \<times> string option list) list" where
  "tables_of h (TablesObj ts) = map (\<lambda>ta. (fst ta, column_entries (list_at h (snd ta)))) ts"
| "tables_of h ob = []"

fun columns_of :: "obj \<Rightarrow> (string \<times> kind) list" where
  "columns_of (ColumnsObj cs) = cs"
| "columns_of ob = []"

fun policy_of :: "heap \<Rightarrow> obj \<Rightarrow> JsonSQL" where
  "policy_of h (InstanceObj attrs) =
     \<lparr> ALLOWED_QUERIES = strings (list_at h (queries_ref attrs)),
       ALLOWED_ITEMS = strings (list_at h (items_ref attrs)),
       ALLOWED_TABLES = tables_of h (cells h (tables_ref attrs)),
       ALLOWED_CONNECTIONS = strings (list_at h (connections_ref attrs)),
       ALLOWED_COLUMNS = columns_of (cells h (columns_ref attrs)),
       LOGICAL = logical_tuple attrs,
       COMPARISON = comparison_tuple attrs,
       SPECIAL_COMPARISON = special_tuple attrs,
       AGGREGATES = aggregates_tuple attrs \<rparr>"
| "policy_of h ob =
     \<lparr> ALLOWED_QUERIES = [], ALLOWED_ITEMS = [], ALLOWED_TABLES = [], ALLOWED_CONNECTIONS = [],
       ALLOWED_COLUMNS = [], LOGICAL = [], COMPARISON = [], SPECIAL_COMPARISON = [],
       AGGREGATES = [] \<rparr>"

definition policy_at :: "heap \<Rightarrow> addr \<Rightarrow> JsonSQL" where
  "policy_at h self_at = policy_of h (cells h self_at)"

text \<open>
  The writes of the source: \<open>[]\<close> creates a list object at an unused address,
  \<open>xs.append(v)\<close> and \<open>xs[index] = v\<close> change the list object that \<open>xs\<close> refers to
  (both are applied to list objects only).
\<close>

definition new_list :: "heap \<Rightarrow> addr \<times> heap" where
  "new_list h =
     (next_free h,
      h\<lparr>cells := (cells h)(next_free h := ListObj []), next_free := Suc (next_free h)\<rparr>)"

definition append_item :: "heap \<Rightarrow> addr \<Rightarrow> pyval \<Rightarrow> heap" where
  "append_item h a v =
     (case cells h a of
        ListObj xs \<Rightarrow> h\<lparr>cells := (cells h)(a := ListObj (xs @ [v]))\<rparr>
      | _ \<Rightarrow> h)"

definition store_item :: "heap \<Rightarrow> addr \<Rightarrow> nat \<Rightarrow> pyval \<Rightarrow> heap" where
  "store_item h a index v =
     (case cells h a of
        ListObj xs \<Rightarrow> h\<lparr>cells := (cells h)(a := ListObj (xs[index := v]))\<rparr>
      | _ \<Rightarrow> h)"

text \<open>
  \<open>logic_parse\<close> creates and fills lists on one path only: a connector that is no known
  column, whose value is a list of at least two children on which \<open>is_valid_comparison\<close>
  returns \<open>False\<close>.
\<close>

definition enters_loop :: "JsonSQL \<Rightarrow> string \<Rightarrow> pyval list \<Rightarrow> bool" where
  "enters_loop P value cases \<longleftrightarrow>
     is_value_in_allowed_categories P value
     \<and> value \<in> set (LOGICAL P)
     \<and> map_of (ALLOWED_COLUMNS P) value = None
     \<and> is_valid_comparison P value (PList cases) = Inr False
     \<and> 2 \<le> length cases"

text \<open>
  The second loop of that path: the parameters of every entry of \<open>data\<close> are appended to
  \<open>params\<close> and its fragment to \<open>output\<close>.
\<close>

definition collect_entry :: "addr \<Rightarrow> addr \<Rightarrow> pyval \<Rightarrow> heap \<Rightarrow> heap" where
  "collect_entry params output entry h =
     (case entry of
        PTuple [fragment, second] \<Rightarrow>
          append_item
            (case second of
               PTuple subs \<Rightarrow> fold (\<lambda>sub h'. append_item h' params sub) subs h
             | _ \<Rightarrow> append_item h params second)
            output fragment
      | _ \<Rightarrow> h)"

definition collect :: "addr \<Rightarrow> addr \<Rightarrow> pyval list \<Rightarrow> heap \<Rightarrow> heap" where
  "collect params output entries h = fold (collect_entry params output) entries h"

text \<open>
  \<open>logic_parse\<close> on the store. On the path above the lists \<open>data\<close>, \<open>params\<close> and
  \<open>output\<close> are objects of the store; on every other path the method creates no list and
  writes to none, and returns what \<open>logic_parse\<close> returns for the policy read from the
  store.
\<close>

fun logic_parse_heap :: "addr \<Rightarrow> heap \<Rightarrow> pyval \<Rightarrow> outcome \<times> heap"
  and cases_loop :: "addr \<Rightarrow> addr \<Rightarrow> heap \<Rightarrow> pyval list \<Rightarrow> outcome option \<times> heap" where
  "logic_parse_heap self_at h (PDict ((value, PList cases) # rest)) =
     (if enters_loop (policy_at h self_at) value cases then
        (case new_list h of
           (data, h1) \<Rightarrow>
             (case cases_loop self_at data h1 cases of
                (Some safe, h2) \<Rightarrow> (safe, h2)
              | (None, h2) \<Rightarrow>
                  (case new_list h2 of
                     (params, h3) \<Rightarrow>
                       (case new_list h3 of
                          (output, h4) \<Rightarrow>
                            (let h5 = collect params output (list_at h4 data) h4 in
                             (case strs_of (list_at h5 output) of
                                Inl e \<Rightarrow> (Raised e, h5)
                              | Inr fragments \<Rightarrow>
                                  (Ok (''('' @ join ('' '' @ upper value @ '' '') fragments @ '')'')
                                      (list_at h5 params),
                                   h5)))))))
      else (logic_parse (policy_at h self_at) (PDict ((value, PList cases) # rest)), h))"
| "logic_parse_heap self_at h node = (logic_parse (policy_at h self_at) node, h)"
| "cases_loop self_at data h [] = (None, h)"
| "cases_loop self_at data h (c # cases) =
     (case logic_parse_heap self_at h c of
        (Ok fragment params, h') \<Rightarrow>
          cases_loop self_at data (append_item h' data (PTuple [PStr fragment, PTuple params])) cases
      | (Fail reason, h') \<Rightarrow> (Some (Fail reason), h')
      | (Raised e, h') \<Rightarrow> (Some (Raised e), h')
      | (NoResult, h') \<Rightarrow> (Some (Raised TypeError), h'))"

text \<open>
  One round of the loop over the items: the failure that ends the loop, or nothing to do,
  or the string to store in place of the item. The column list of the table is looked up
  only when the item is not in \<open>ALLOWED_ITEMS\<close>.
\<close>

definition item_step :: "JsonSQL \<Rightarrow> string \<Rightarrow> pyval \<Rightarrow> outcome + pyval option" where
  "item_step P table item =
     (if in_strs item (ALLOWED_ITEMS P) then Inr None
      else (case map_of (ALLOWED_TABLES P) table of
              None \<Rightarrow> Inl (Raised KeyError)
            | Some cols \<Rightarrow>
                (if in_columns item cols then Inr None
                 else if is_dict item then
                   (case py_first item of
                      Inl e \<Rightarrow> Inl (Raised e)
                    | Inr aggregate_function \<Rightarrow>
                        (if in_strs aggregate_function (AGGREGATES P) then
                           (case py_getitem item aggregate_function of
                              Inl e \<Rightarrow> Inl (Raised e)
                            | Inr aggregate_argument \<Rightarrow>
                                (if in_strs aggregate_argument (ALLOWED_ITEMS P)
                                    \<or> in_columns aggregate_argument cols
                                 then Inr (Some (PStr (py_str aggregate_function @ ''(''
                                                       @ py_str aggregate_argument @ '')'')))
                                 else Inl (Fail (''Item not allowed - ''
                                                 @ py_str aggregate_argument))))
                         else Inl (Fail (''Item not allowed - '' @ py_str item))))
                 else Inl (Fail (''Item not allowed - '' @ py_str item)))))"

text \<open>
  The loop over \<open>enumerate(json_input["items"])\<close>: the list object at \<open>a\<close> is read at
  each index, the policy is read from the store in each round, and an accepted aggregate
  is written back at the index.
\<close>

fun items_loop :: "addr \<Rightarrow> string \<Rightarrow> addr \<Rightarrow> nat list \<Rightarrow> heap \<Rightarrow> outcome option \<times> heap" where
  "items_loop self_at table a [] h = (None, h)"
| "items_loop self_at table a (index # rest) h =
     (if length (list_at h a) \<le> index then (None, h)
      else (case item_step (policy_at h self_at) table (list_at h a ! index) of
              Inl r \<Rightarrow> (Some r, h)
            | Inr None \<Rightarrow> items_loop self_at table a rest h
            | Inr (Some rendered) \<Rightarrow>
                items_loop self_at table a rest (store_item h a index rendered)))"

text \<open>
  The request dictionary \<open>j\<close> whose \<open>items\<close> entry refers to the list object at \<open>a\<close>,
  and \<open>sql_parse\<close> on the store.
\<close>

definition request_at :: "heap \<Rightarrow> (string \<times> pyval) list \<Rightarrow> addr \<Rightarrow> (string \<times> pyval) list" where
  "request_at h j a = AList.update ''items'' (PList (list_at h a)) j"

definition statement_sql_heap ::
  "addr \<Rightarrow> (string \<times> pyval) list \<Rightarrow> string \<Rightarrow> pyval list \<Rightarrow> string \<Rightarrow> heap \<Rightarrow> outcome \<times> heap" where
  "statement_sql_heap self_at j query items table h =
     (case strs_of items of
        Inl e \<Rightarrow> (Raised e, h)
      | Inr strs \<Rightarrow>
          (let sql_string = query @ '' '' @ join '','' strs @ '' FROM '' @ table in
           (case map_of j ''logic'' of
              None \<Rightarrow> (Ok sql_string [], h)
            | Some logic \<Rightarrow>
                (case logic_parse_heap self_at h logic of
                   (Raised e, h') \<Rightarrow> (Raised e, h')
                 | (NoResult, h') \<Rightarrow> (Raised TypeError, h')
                 | (Fail reason, h') \<Rightarrow> (Fail (''Logic Fail - '' @ reason), h')
                 | (Ok fragment params, h') \<Rightarrow>
                     (case map_of j ''connection'' of
                        None \<Rightarrow> (Raised KeyError, h')
                      | Some connection \<Rightarrow>
                          (Ok (sql_string @ '' '' @ py_str connection @ '' '' @ fragment) params,
                           h'))))))"

definition assemble_heap ::
  "addr \<Rightarrow> (string \<times> pyval) list \<Rightarrow> string \<Rightarrow> pyval list \<Rightarrow> string \<Rightarrow> heap \<Rightarrow> outcome \<times> heap" where
  "assemble_heap self_at j query items table h =
     (case map_of j ''connection'' of
        None \<Rightarrow> statement_sql_heap self_at j query items table h
      | Some connection \<Rightarrow>
          (if \<not> in_strs connection (ALLOWED_CONNECTIONS (policy_at h self_at))
           then (Fail (''Connection not allowed - '' @ py_str connection), h)
           else statement_sql_heap self_at j query items table h))"

definition sql_parse_heap ::
  "addr \<Rightarrow> (string \<times> pyval) list \<Rightarrow> addr \<Rightarrow> heap \<Rightarrow> outcome \<times> heap" where
  "sql_parse_heap self_at j a h =
     (case required_inputs (request_at h j a) of
        Inl r \<Rightarrow> (r, h)
      | Inr (query, items, table) \<Rightarrow>
          (if query \<notin> set (ALLOWED_QUERIES (policy_at h self_at))
           then (Fail (''Query not allowed - '' @ query), h)
           else (case map_of (ALLOWED_TABLES (policy_at h self_at)) table of
                   None \<Rightarrow> (Fail (''Table not allowed - '' @ table), h)
                 | Some cols \<Rightarrow>
                     (case items_loop self_at table a [0 ..< length items] h of
                        (Some r, h') \<Rightarrow> (r, h')
                      | (None, h') \<Rightarrow>
                          assemble_heap self_at (request_at h' j a) query (list_at h' a) table
                            h'))))"

text \<open>
  A policy of the specification's types in the store: the instance refers to lists of
  strings, to a \<open>table_dict\<close> whose column lists hold strings or \<open>None\<close>, and to a
  dictionary of columns; all these objects are in use. \<open>policy_objects\<close> lists them.
\<close>

fun is_str :: "pyval \<Rightarrow> bool" where
  "is_str (PStr s) = True"
| "is_str v = False"

fun strings_only :: "obj \<Rightarrow> bool" where
  "strings_only (ListObj xs) = list_all is_str xs"
| "strings_only ob = False"

fun columns_only :: "obj \<Rightarrow> bool" where
  "columns_only (ListObj xs) = list_all (\<lambda>v. is_str v \<or> v = PNone) xs"
| "columns_only ob = False"

fun column_lists :: "obj \<Rightarrow> addr list" where
  "column_lists (TablesObj ts) = map snd ts"
| "column_lists ob = []"

fun referenced :: "heap \<Rightarrow> obj \<Rightarrow> addr list" where
  "referenced h (InstanceObj attrs) =
     [queries_ref attrs, items_ref attrs, tables_ref attrs, connections_ref attrs,
      columns_ref attrs] @ column_lists (cells h (tables_ref attrs))"
| "referenced h ob = []"

definition policy_objects :: "heap \<Rightarrow> addr \<Rightarrow> addr list" where
  "policy_objects h self_at = self_at # referenced h (cells h self_at)"

fun is_tables :: "obj \<Rightarrow> bool" where
  "is_tables (TablesObj ts) = True"
| "is_tables ob = False"

fun is_columns :: "obj \<Rightarrow> bool" where
  "is_columns (ColumnsObj cs) = True"
| "is_columns ob = False"

fun well_typed_instance :: "heap \<Rightarrow> obj \<Rightarrow> bool" where
  "well_typed_instance h (InstanceObj attrs) \<longleftrightarrow>
     strings_only (cells h (queries_ref attrs))
     \<and> strings_only (cells h (items_ref attrs))
     \<and> strings_only (cells h (connections_ref attrs))
     \<and> is_tables (cells h (tables_ref attrs))
     \<and> list_all (\<lambda>a. columns_only (cells h a)) (column_lists (cells h (tables_ref attrs)))
     \<and> is_columns (cells h (columns_ref attrs))"
| "well_typed_instance h ob \<longleftrightarrow> False"

definition well_typed :: "heap \<Rightarrow> addr \<Rightarrow> bool" where
  "well_typed h self_at \<longleftrightarrow>
     well_typed_instance h (cells h self_at)
     \<and> list_all (\<lambda>p. p < next_free h) (policy_objects h self_at)"

text \<open>
  Two relations between the store before and after a call: every object of the policy has
  its content, and every object at an address below \<open>n\<close> has its content.
\<close>

definition same_policy :: "addr \<Rightarrow> heap \<Rightarrow> heap \<Rightarrow> bool" where
  "same_policy self_at h h' \<longleftrightarrow>
     (\<forall>p \<in> set (policy_objects h self_at). cells h' p = cells h p)
     \<and> next_free h \<le> next_free h'"

definition frame_below :: "addr \<Rightarrow> heap \<Rightarrow> heap \<Rightarrow> bool" where
  "frame_below n h h' \<longleftrightarrow> (\<forall>p < n. cells h' p = cells h p) \<and> next_free h \<le> next_free h'"

text \<open>The entry \<open>evaluation[1:]\<close> that \<open>logic_parse\<close> appends to \<open>data\<close> for a child.\<close>

definition entry_of :: "string \<times> pyval list \<Rightarrow> pyval" where
  "entry_of e = PTuple [PStr (fst e), PTuple (snd e)]"

text \<open>
  The policy of Scenario A in a store (addresses 0 to 6) and, at address 7, the items list
  \<open>[{"COUNT": "*"}]\<close> of a request.
\<close>

definition scenario_attributes :: attributes where
  "scenario_attributes =
     \<lparr> queries_ref = 1, items_ref = 2, tables_ref = 3, connections_ref = 4, columns_ref = 5,
       logical_tuple = [''AND'', ''OR''],
       comparison_tuple = [''='', ''>'', ''<'', ''>='', ''<='', ''<>'', ''!=''],
       special_tuple = [''BETWEEN'', ''IN''],
       aggregates_tuple = [''MIN'', ''MAX'', ''SUM'', ''AVG'', ''COUNT''] \<rparr>"

definition scenario_cells :: "addr \<Rightarrow> obj" where
  "scenario_cells a =
     (if a = 0 then InstanceObj scenario_attributes
      else if a = 1 then ListObj [PStr ''SELECT'']
      else if a = 2 then ListObj [PStr ''*'']
      else if a = 3 then TablesObj [(''images'', 6)]
      else if a = 4 then ListObj [PStr ''WHERE'']
      else if a = 5 then ColumnsObj [(''creature'', KStr), (''userID'', KInt)]
      else if a = 7 then ListObj [PDict [(''COUNT'', PStr ''*'')]]
      else ListObj [])"

definition scenario_heap :: heap where
  "scenario_heap = \<lparr> cells = scenario_cells, next_free = 8 \<rparr>"

section \<open>Auxiliary facts\<close>

lemmas compiler_defs =
  py_first_def is_valid_aggregate_def is_valid_value_def is_special_comparison_def
  is_valid_comparison_def get_sql_comparator_def is_value_in_allowed_categories_def
  invalid_comparison_def comparison_sql_def placeholders_def policy_def

lemma in_strs_PStr: "in_strs v xs \<Longrightarrow> \<exists>s. v = PStr s \<and> s \<in> set xs"
  by (cases v) auto

lemma is_another_column_PStr:
  "is_another_column P v \<Longrightarrow> \<exists>s. v = PStr s \<and> map_of (ALLOWED_COLUMNS P) s \<noteq> None"
  by (cases v) auto

lemma py_getitem_str_key:
  "py_getitem v (PStr k) = Inr w \<Longrightarrow> \<exists>d. v = PDict d \<and> map_of d k = Some w"
  by (cases v) (auto split: option.splits)

lemma isinstance_list: "\<not> isinstance (PList xs) vt"
  by (cases vt) auto

subsection \<open>The only exception of the validators is the \<open>IndexError\<close> of an empty object\<close>

lemma is_valid_aggregate_exn: "is_valid_aggregate P v = Inl e \<Longrightarrow> e = IndexError"
  by (cases v) (auto simp add: is_valid_aggregate_def py_first_def split: list.splits if_splits)

lemma is_valid_value_exn: "is_valid_value P v vt = Inl e \<Longrightarrow> e = IndexError"
  by (auto simp add: is_valid_value_def split: if_splits dest: is_valid_aggregate_exn)

lemma all_values_allowed_exn: "all_values_allowed P xs vt = Inl e \<Longrightarrow> e = IndexError"
  by (induction xs) (auto split: sum.splits if_splits dest: is_valid_value_exn)

subsection \<open>The loop over the items\<close>

lemma check_items_no_dict:
  "\<forall>i \<in> set items. \<not> is_dict i \<Longrightarrow> snd (check_items P cols items) = items"
  by (induction items) (auto split: prod.splits)

lemma check_items_not_ok: "check_items P cols items = (Some r, items') \<Longrightarrow> r \<noteq> Ok sql ps"
  by (induction items arbitrary: items')
     (auto split: if_splits sum.splits prod.splits)

lemma check_items_strings:
  assumes "set tcols \<subseteq> {None}"
  shows "check_items P tcols (map PStr ss) =
     (case find (\<lambda>s. s \<notin> set (ALLOWED_ITEMS P)) ss of
        None \<Rightarrow> (None, map PStr ss)
      | Some s \<Rightarrow> (Some (Fail (''Item not allowed - '' @ s)), map PStr ss))"
  using assms by (induction ss) (auto split: option.splits)

lemma strs_of_strings: "strs_of (map PStr ss) = Inr ss"
  by (induction ss) auto

lemma strs_of_Cons:
  "strs_of (v # rest) = Inr strs \<Longrightarrow>
   \<exists>s ss. v = PStr s \<and> strs = s # ss \<and> strs_of rest = Inr ss"
  by (cases v) (auto split: sum.splits)

lemma required_inputs_items:
  "required_inputs j = Inr (q, items, t) \<Longrightarrow> map_of j ''items'' = Some (PList items)"
  by (auto simp add: required_inputs_def split: option.splits pyval.splits)

lemma required_inputs_fail: "required_inputs j = Inl r \<Longrightarrow> \<exists>reason. r = Fail reason"
  by (auto simp add: required_inputs_def split: option.splits pyval.splits)

lemma init_policy:
  "init qs its tabs cs cols = Inr P \<Longrightarrow> \<exists>td. P = policy qs its td cs cols"
  by (auto simp add: init_def split: sum.splits)

subsection \<open>Scenario A, evaluated\<close>

lemma scenario_logic_eval:
  "logic_parse scenario_policy scenario_logic =
     Ok ''(creature = ? AND (userID = ? OR userID = ?))'' [PStr ''owlbear'', PInt 555, PInt 111]"
  by code_simp

lemma scenario_request_eval:
  "sql_parse \<lparr>self = scenario_policy, json_input = scenario_request\<rparr> =
     (Ok ''SELECT * FROM images WHERE (creature = ? AND (userID = ? OR userID = ?))''
         [PStr ''owlbear'', PInt 555, PInt 111],
      \<lparr>self = scenario_policy, json_input = scenario_request\<rparr>)"
  by code_simp

subsection \<open>Without bare-name tables, every compiled text is in the whitelist grammar\<close>

lemma valid_aggregate_argument:
  assumes "is_valid_aggregate P (PDict d) = Inr True"
    and "py_first (PDict d) = Inr (PStr f)" and "py_getitem (PDict d) (PStr f) = Inr arg"
  shows "\<exists>a. arg = PStr a \<and> map_of (ALLOWED_COLUMNS P) a \<noteq> None"
  using assms
  by (auto simp add: is_valid_aggregate_def split: if_splits option.splits
        dest: is_another_column_PStr)

lemma comparison_sql_fragment:
  assumes valid: "is_valid_comparison P c cmp = Inr True"
    and sql: "comparison_sql P c cmp = Ok t ps"
  shows "whitelisted_fragment P t"
proof -
  from valid obtain comparator where first: "py_first cmp = Inr comparator"
    by (auto simp add: is_valid_comparison_def split: sum.splits)
  from valid first
  have "in_strs comparator (COMPARISON P) \<or> in_strs comparator (SPECIAL_COMPARISON P)"
    by (auto simp add: is_valid_comparison_def split: if_splits)
  then obtain op where op: "comparator = PStr op"
    and op_in: "op \<in> set (COMPARISON P) \<union> set (SPECIAL_COMPARISON P)"
    by (auto dest: in_strs_PStr)
  from valid first op op_in obtain operand where operand: "py_getitem cmp (PStr op) = Inr operand"
    by (auto simp add: is_valid_comparison_def split: sum.splits if_splits)
  from valid first op op_in operand obtain vt where vt: "map_of (ALLOWED_COLUMNS P) c = Some vt"
    by (auto simp add: is_valid_comparison_def split: option.splits if_splits)
  then have c: "map_of (ALLOWED_COLUMNS P) c \<noteq> None" by simp
  from valid first op op_in operand vt
  have ok: "is_valid_value P operand vt = Inr True
      \<or> is_special_comparison P (PStr op) operand vt = Inr True"
    by (auto simp add: is_valid_comparison_def split: sum.splits if_splits)
  have adj: "py_str (get_sql_comparator (PStr op)) = normalize_comparator op"
    by (simp add: get_sql_comparator_def normalize_comparator_def)
  show ?thesis
  proof (cases "op \<in> set (COMPARISON P) \<and> \<not> is_dict operand")
    case True
    show ?thesis
    proof (cases "is_another_column P operand")
      case False
      with True sql first op operand adj have "t = c @ '' '' @ normalize_comparator op @ '' ?''"
        by (simp add: comparison_sql_def)
      with True c show ?thesis using whitelisted_fragment.bound [of P c op] by simp
    next
      case another: True
      then obtain d where d: "operand = PStr d" "map_of (ALLOWED_COLUMNS P) d \<noteq> None"
        by (auto dest: is_another_column_PStr)
      with True another sql first op operand adj
      have "t = c @ '' '' @ normalize_comparator op @ '' '' @ d"
        by (simp add: comparison_sql_def)
      with True c d show ?thesis using whitelisted_fragment.column [of P c op d] by simp
    qed
  next
    case False
    then have not1: "\<not> (in_strs (PStr op) (COMPARISON P) \<and> \<not> is_another_column P operand
        \<and> \<not> is_dict operand)"
      and not2: "\<not> (in_strs (PStr op) (COMPARISON P) \<and> is_another_column P operand)"
      by (auto dest: is_another_column_PStr)
    from sql first op operand not1 not2 obtain head where head: "py_first operand = Inr head"
      by (auto simp add: comparison_sql_def Let_def split: sum.splits)
    show ?thesis
    proof (cases "in_strs head (AGGREGATES P)")
      case True
      then obtain f where f: "head = PStr f" "f \<in> set (AGGREGATES P)"
        by (auto dest: in_strs_PStr)
      from sql first op operand not1 not2 head True f obtain arg
        where arg: "py_getitem operand (PStr f) = Inr arg"
          and t: "t = c @ '' '' @ normalize_comparator op @ '' '' @ f @ ''('' @ py_str arg @ '')''"
        by (auto simp add: comparison_sql_def Let_def adj split: sum.splits)
      from arg obtain dd where dd: "operand = PDict dd"
        by (auto dest: py_getitem_str_key)
      with ok have "is_valid_aggregate P (PDict dd) = Inr True"
        by (auto simp add: is_valid_value_def is_special_comparison_def)
      with head f arg dd obtain a where a: "arg = PStr a" "map_of (ALLOWED_COLUMNS P) a \<noteq> None"
        using valid_aggregate_argument [of P dd f arg] by auto
      with t c op_in f show ?thesis
        using whitelisted_fragment.aggregate [of P c op f a] by simp
    next
      case no_agg: False
      with sql first op operand not1 not2 head
      have "t = c @ '' BETWEEN ? AND ?'' \<or> (\<exists>n. t = c @ '' IN ('' @ placeholders n @ '')'')"
        by (auto simp add: comparison_sql_def Let_def split: sum.splits if_splits)
      with c show ?thesis
        using whitelisted_fragment.between [of P c] whitelisted_fragment.among [of P c] by auto
    qed
  qed
qed

lemma parse_cases_not_ok: "parse_cases P cs = Inl r \<Longrightarrow> r \<noteq> Ok t ps"
  by (induction cs arbitrary: r) (auto split: outcome.splits sum.splits)

lemma parse_cases_fragments:
  assumes "\<forall>c \<in> set cs. \<forall>t ps. logic_parse P c = Ok t ps \<longrightarrow> whitelisted_fragment P t"
    and "parse_cases P cs = Inr data"
  shows "length data = length cs \<and> (\<forall>f \<in> set (map fst data). whitelisted_fragment P f)"
  using assms
  by (induction cs arbitrary: data) (auto split: outcome.splits sum.splits)

text \<open>
  Structural induction on the request; the statement about the entries of a list is what
  the induction hypothesis of a logical node needs.
\<close>

lemma logic_parse_fragment_aux:
  assumes up: "\<forall>v \<in> set (LOGICAL P). upper v = v"
  shows "(\<forall>t ps. logic_parse P j = Ok t ps \<longrightarrow> whitelisted_fragment P t)
       \<and> (\<forall>cs. j = PList cs \<longrightarrow>
            (\<forall>c \<in> set cs. \<forall>t ps. logic_parse P c = Ok t ps \<longrightarrow> whitelisted_fragment P t))"
proof (induction j)
  case (PDict d)
  show ?case
  proof (cases d)
    case Nil
    then show ?thesis by simp
  next
    case (Cons kv rest)
    obtain k cmp where kv: "kv = (k, cmp)" by (cases kv)
    have children: "\<forall>cs. cmp = PList cs \<longrightarrow>
        (\<forall>c \<in> set cs. \<forall>t ps. logic_parse P c = Ok t ps \<longrightarrow> whitelisted_fragment P t)"
      using PDict.IH [of kv cmp] Cons kv by simp
    have "whitelisted_fragment P t" if ok: "logic_parse P (PDict ((k, cmp) # rest)) = Ok t ps"
      for t ps
    proof (cases "is_valid_comparison P k cmp")
      case (Inl e)
      with ok show ?thesis by (auto split: if_splits)
    next
      case (Inr valid)
      show ?thesis
      proof (cases valid)
        case True
        with Inr ok have "comparison_sql P k cmp = Ok t ps"
          by (auto split: if_splits)
        with Inr True show ?thesis by (auto intro: comparison_sql_fragment)
      next
        case False
        with Inr ok have k: "k \<in> set (LOGICAL P)"
          by (auto simp add: invalid_comparison_def Let_def
                split: if_splits option.splits sum.splits pyval.splits)
        with Inr False ok obtain cs data where cs: "cmp = PList cs" "2 \<le> length cs"
          and data: "parse_cases P cs = Inr data"
          and t: "t = ''('' @ join ('' '' @ upper k @ '' '') (map fst data) @ '')''"
          by (auto simp add: invalid_comparison_def Let_def
                split: if_splits option.splits sum.splits pyval.splits
                dest: parse_cases_not_ok)
        from children cs data
        have "length data = length cs \<and> (\<forall>f \<in> set (map fst data). whitelisted_fragment P f)"
          by (intro parse_cases_fragments) auto
        with cs k up t show ?thesis
          using whitelisted_fragment.logical [of k P "map fst data"] by simp
      qed
    qed
    with Cons kv show ?thesis by simp
  qed
qed (auto split: if_splits)

lemma listed_argument:
  assumes "in_strs arg (ALLOWED_ITEMS P) \<or> in_columns arg cols" and "f \<in> set (AGGREGATES P)"
    and "None \<notin> set cols"
  shows "whitelisted_item P cols (f @ ''('' @ py_str arg @ '')'')"
proof (cases arg)
  case (PStr a)
  with assms show ?thesis using whitelisted_item.aggregate_of [of f P a cols] by simp
qed (use assms in auto)

lemma check_items_whitelisted:
  assumes no_none: "None \<notin> set cols"
  shows "check_items P cols items = (None, items') \<Longrightarrow> strs_of items' = Inr strs \<Longrightarrow>
   \<forall>s \<in> set strs. whitelisted_item P cols s"
proof (induction items arbitrary: items' strs)
  case Nil
  then show ?case by auto
next
  case (Cons item rest)
  obtain early rest' where rest: "check_items P cols rest = (early, rest')"
    by (cases "check_items P cols rest")
  show ?case
  proof (cases "in_strs item (ALLOWED_ITEMS P) \<or> in_columns item cols")
    case True
    with Cons.prems(1) rest have eq: "early = None" "items' = item # rest'"
      by auto
    with Cons.prems(2) obtain s ss where s: "item = PStr s" "strs = s # ss" "strs_of rest' = Inr ss"
      by (auto dest: strs_of_Cons)
    with Cons.IH [of rest' ss] rest eq have "\<forall>x \<in> set ss. whitelisted_item P cols x"
      by simp
    moreover from True s have "whitelisted_item P cols s"
      using whitelisted_item.listed [of s P cols] by simp
    ultimately show ?thesis using s by simp
  next
    case False
    with Cons.prems(1) rest obtain af arg where af: "in_strs af (AGGREGATES P)"
      and arg: "in_strs arg (ALLOWED_ITEMS P) \<or> in_columns arg cols"
      and eq': "early = None" "items' = PStr (py_str af @ ''('' @ py_str arg @ '')'') # rest'"
      by (auto split: if_splits sum.splits)
    from af obtain f where f: "af = PStr f" "f \<in> set (AGGREGATES P)"
      by (auto dest: in_strs_PStr)
    with eq' have eq: "early = None" "items' = PStr (f @ ''('' @ py_str arg @ '')'') # rest'"
      by simp_all
    with Cons.prems(2) obtain ss where
      ss: "strs = (f @ ''('' @ py_str arg @ '')'') # ss" "strs_of rest' = Inr ss"
      by (auto split: sum.splits)
    with Cons.IH [of rest' ss] rest eq have "\<forall>x \<in> set ss. whitelisted_item P cols x"
      by simp
    moreover from arg f(2) no_none
    have "whitelisted_item P cols (f @ ''('' @ py_str arg @ '')'')"
      by (rule listed_argument)
    ultimately show ?thesis using ss by simp
  qed
qed

lemma assemble_statement:
  assumes "assemble P j q items t = Ok sql ps"
    and "q \<in> set (ALLOWED_QUERIES P)" and "map_of (ALLOWED_TABLES P) t = Some cols"
    and "\<And>strs. strs_of items = Inr strs \<Longrightarrow> \<forall>s \<in> set strs. whitelisted_item P cols s"
    and "\<And>l frag qs. logic_parse P l = Ok frag qs \<Longrightarrow> whitelisted_fragment P frag"
  shows "whitelisted_statement P sql"
proof -
  from assms(1) obtain strs where strs: "strs_of items = Inr strs"
    by (auto simp add: assemble_def statement_sql_def split: if_splits sum.splits option.splits)
  with assms(4) have items: "\<forall>s \<in> set strs. whitelisted_item P cols s" by simp
  show ?thesis
  proof (cases "map_of j ''logic''")
    case None
    with assms(1) strs have "sql = q @ '' '' @ join '','' strs @ '' FROM '' @ t"
      by (auto simp add: assemble_def statement_sql_def split: if_splits option.splits)
    with assms(2,3) items show ?thesis
      using whitelisted_statement.plain [of q P t cols strs] by simp
  next
    case (Some l)
    with assms(1) strs obtain frag cn where frag: "logic_parse P l = Ok frag ps"
      and cn: "cn \<in> set (ALLOWED_CONNECTIONS P)"
      and sql: "sql = q @ '' '' @ join '','' strs @ '' FROM '' @ t @ '' '' @ cn @ '' '' @ frag"
      by (auto simp add: assemble_def statement_sql_def
            split: if_splits option.splits outcome.splits dest!: in_strs_PStr)
    from frag have "whitelisted_fragment P frag" by (rule assms(5))
    with assms(2,3) items cn sql show ?thesis
      using whitelisted_statement.filtered [of q P t cols strs cn frag] by simp
  qed
qed

lemma sql_parse_statement:
  assumes "fst (sql_parse s) = Ok sql ps"
    and "\<And>l frag qs. logic_parse (self s) l = Ok frag qs \<Longrightarrow> whitelisted_fragment (self s) frag"
    and "\<And>t cols. map_of (ALLOWED_TABLES (self s)) t = Some cols \<Longrightarrow> None \<notin> set cols"
  shows "whitelisted_statement (self s) sql"
proof -
  from assms(1) obtain q items t where req: "required_inputs (json_input s) = Inr (q, items, t)"
    by (cases "required_inputs (json_input s)")
       (auto simp add: sql_parse_def dest: required_inputs_fail)
  with assms(1) have q: "q \<in> set (ALLOWED_QUERIES (self s))"
    by (auto simp add: sql_parse_def split: if_splits)
  with assms(1) req obtain cols where cols: "map_of (ALLOWED_TABLES (self s)) t = Some cols"
    by (auto simp add: sql_parse_def split: option.splits)
  obtain early items' where loop: "check_items (self s) cols items = (early, items')"
    by (cases "check_items (self s) cols items")
  with assms(1) req q cols have early: "early = None"
    and asm: "assemble (self s) (AList.update ''items'' (PList items') (json_input s)) q items' t
               = Ok sql ps"
    by (auto simp add: sql_parse_def Let_def split: option.splits dest: check_items_not_ok)
  from asm q cols show ?thesis
  proof (rule assemble_statement)
    show "\<forall>x \<in> set strs. whitelisted_item (self s) cols x" if "strs_of items' = Inr strs" for strs
      using loop early that check_items_whitelisted [OF assms(3) [OF cols]] by blast
  qed (rule assms(2))
qed

lemma upper_connectors: "\<forall>v \<in> set (LOGICAL (policy qs its td cs cols)). upper v = v"
  by (simp add: policy_def upper_def)

text \<open>
  For a policy in which no column list holds \<open>None\<close> (no table was given as a bare
  name), every text returned on success is generated by the whitelist grammar.
\<close>

lemma compiled_text_whitelisted:
  assumes "P = policy qs its td cs cols"
    and "\<And>t tcols. map_of td t = Some tcols \<Longrightarrow> None \<notin> set tcols"
  shows "(logic_parse P j = Ok frag ps \<longrightarrow> whitelisted_fragment P frag)
       \<and> (fst (sql_parse \<lparr>self = P, json_input = r\<rparr>) = Ok sql qs'
            \<longrightarrow> whitelisted_statement P sql)"
proof -
  have frag: "whitelisted_fragment P f" if "logic_parse P l = Ok f xs" for l f xs
    using that logic_parse_fragment_aux [of P l] upper_connectors assms(1) by blast
  have tabs: "None \<notin> set tcols" if "map_of (ALLOWED_TABLES P) t = Some tcols" for t tcols
    using that assms by (simp add: policy_def)
  show ?thesis
    using frag tabs sql_parse_statement [of "\<lparr>self = P, json_input = r\<rparr>" sql qs'] by auto
qed

lemma compiled_text_whitelisted_scenario:
  "whitelisted_fragment scenario_policy ''(creature = ? AND (userID = ? OR userID = ?))''
   \<and> whitelisted_statement scenario_policy
       ''SELECT * FROM images WHERE (creature = ? AND (userID = ? OR userID = ?))''"
proof -
  have tabs: "None \<notin> set tcols" if "map_of [(''images'', [])] t = Some tcols"
    for t and tcols :: "string option list"
    using that by (simp split: if_splits)
  from compiled_text_whitelisted [where j = scenario_logic
      and frag = "''(creature = ? AND (userID = ? OR userID = ?))''"
      and ps = "[PStr ''owlbear'', PInt 555, PInt 111]" and r = scenario_request
      and sql = "''SELECT * FROM images WHERE (creature = ? AND (userID = ? OR userID = ?))''"
      and qs' = "[PStr ''owlbear'', PInt 555, PInt 111]", OF scenario_policy_def tabs]
  show ?thesis
    using scenario_logic_eval scenario_request_eval by simp
qed

subsection \<open>The arity rules of the special comparators\<close>

text \<open>
  For every policy and every known column \<open>c\<close>: \<open>BETWEEN\<close> with an operand list of
  length other than 2 never succeeds (it returns a failure, or raises the \<open>IndexError\<close> of
  an empty object among the operands); \<open>IN\<close> with the empty list returns a failure; and a
  successful \<open>IN\<close> with the one-element list \<open>[x]\<close> returns the text \<open>c IN (?)\<close> and the
  parameters \<open>(x,)\<close>.
\<close>

lemma special_comparison_arity:
  assumes "map_of cols c \<noteq> None"
  shows "(length xs \<noteq> 2 \<longrightarrow>
           (\<exists>reason. logic_parse (policy qs its td cs cols)
                (PDict [(c, PDict [(''BETWEEN'', PList xs)])]) = Fail reason)
           \<or> logic_parse (policy qs its td cs cols)
                (PDict [(c, PDict [(''BETWEEN'', PList xs)])]) = Raised IndexError)
       \<and> (\<exists>reason. logic_parse (policy qs its td cs cols)
                (PDict [(c, PDict [(''IN'', PList [])])]) = Fail reason)
       \<and> (\<forall>sql ps. logic_parse (policy qs its td cs cols)
                (PDict [(c, PDict [(''IN'', PList [x])])]) = Ok sql ps
             \<longrightarrow> sql = c @ '' IN (?)'' \<and> ps = [x])"
proof (intro conjI impI allI)
  let ?P = "policy qs its td cs cols"
  obtain vt where vt: "map_of cols c = Some vt" using assms by auto
  show "(\<exists>reason. logic_parse ?P (PDict [(c, PDict [(''BETWEEN'', PList xs)])]) = Fail reason)
           \<or> logic_parse ?P (PDict [(c, PDict [(''BETWEEN'', PList xs)])]) = Raised IndexError"
    if "length xs \<noteq> 2"
  proof (cases "all_values_allowed ?P xs vt")
    case (Inl e)
    then have "e = IndexError" by (rule all_values_allowed_exn)
    with Inl vt show ?thesis
      by (simp add: compiler_defs isinstance_list del: all_values_allowed.simps)
  next
    case (Inr b)
    with vt that show ?thesis
      by (simp add: compiler_defs isinstance_list del: all_values_allowed.simps)
  qed
  show "\<exists>reason. logic_parse ?P (PDict [(c, PDict [(''IN'', PList [])])]) = Fail reason"
    using vt by (simp add: compiler_defs isinstance_list)
  show "sql = c @ '' IN (?)''" "ps = [x]"
    if "logic_parse ?P (PDict [(c, PDict [(''IN'', PList [x])])]) = Ok sql ps" for sql ps
    using that vt
    by (cases x; auto simp add: compiler_defs isinstance_list split: if_splits sum.splits)+
qed

lemma special_comparison_arity_scenario:
  "logic_parse scenario_policy (PDict [(''userID'', PDict [(''BETWEEN'', PList [PInt 1])])])
     = Fail ''Bad userID, non <class 'int'>''
   \<and> logic_parse scenario_policy (PDict [(''userID'', PDict [(''IN'', PList [])])])
     = Fail ''Bad userID, non <class 'int'>''
   \<and> logic_parse scenario_policy (PDict [(''userID'', PDict [(''IN'', PList [PInt 5])])])
     = Ok ''userID IN (?)'' [PInt 5]"
  using special_comparison_arity [of "[(''creature'', KStr), (''userID'', KInt)]" "''userID''"
      "[PInt 1]" "[''SELECT'']" "[''*'']" "[(''images'', [])]" "[''WHERE'']" "PInt 5"]
  by (simp add: scenario_policy_def compiler_defs)

subsection \<open>The items list after a call\<close>

lemma rendered_aggregate_dict:
  "rendered_aggregate P cols item = Some s \<Longrightarrow> is_dict item"
  by (cases "(P, cols, item)" rule: rendered_aggregate.cases) auto

lemma check_items_after: "snd (check_items P cols items) = items_after P cols items"
proof (induction items)
  case Nil
  then show ?case by (simp add: items_after_def)
next
  case (Cons item rest)
  show ?case
  proof (cases "item_listed P cols item")
    case True
    with Cons show ?thesis
      by (auto simp add: items_after_def item_accepted_def item_after_def item_listed_def
            split: prod.splits)
  next
    case False
    show ?thesis
    proof (cases item)
      case (PDict d)
      show ?thesis
      proof (cases d)
        case Nil
        with PDict False show ?thesis
          by (simp add: items_after_def item_accepted_def item_listed_def py_first_def)
      next
        case (Cons kv others)
        obtain f arg where kv: "kv = (f, arg)" by (cases kv)
        with PDict Cons False Cons.IH show ?thesis
          by (auto simp add: items_after_def item_accepted_def item_after_def item_listed_def
                py_first_def split: prod.splits)
      qed
    qed (use False in \<open>auto simp add: items_after_def item_accepted_def item_listed_def\<close>)
  qed
qed

subsection \<open>Calls on the store leave the objects of the policy as they were\<close>

lemma frame_below_refl: "frame_below n h h"
  by (simp add: frame_below_def)

lemma frame_below_trans: "frame_below n h h' \<Longrightarrow> frame_below n h' h'' \<Longrightarrow> frame_below n h h''"
  by (auto simp add: frame_below_def)

lemma frame_below_new_list:
  "n \<le> next_free h \<Longrightarrow> new_list h = (a, h') \<Longrightarrow> frame_below n h h' \<and> n \<le> a \<and> n \<le> next_free h'"
  by (auto simp add: frame_below_def new_list_def)

lemma frame_below_append: "n \<le> a \<Longrightarrow> frame_below n h (append_item h a v)"
  by (auto simp add: frame_below_def append_item_def split: obj.splits)

lemma next_free_append: "next_free (append_item h a v) = next_free h"
  by (simp add: append_item_def split: obj.splits)

lemma frame_below_fold:
  "n \<le> a \<Longrightarrow> frame_below n h (fold (\<lambda>sub h'. append_item h' a sub) subs h)"
proof (induction subs arbitrary: h)
  case Nil
  then show ?case by (simp add: frame_below_refl)
next
  case (Cons sub subs)
  then show ?case
    using frame_below_trans [OF frame_below_append [of n a h sub]] by simp
qed

lemma frame_below_collect_entry:
  assumes "n \<le> pl" and "n \<le> ol"
  shows "frame_below n h (collect_entry pl ol entry h)"
proof -
  have "frame_below n h (append_item h' ol fragment)" if "frame_below n h h'" for h' fragment
    using that frame_below_append [OF assms(2), of h' fragment] by (rule frame_below_trans)
  moreover have "frame_below n h (append_item h pl second)" for second
    using assms(1) by (rule frame_below_append)
  moreover have "frame_below n h (fold (\<lambda>sub h'. append_item h' pl sub) subs h)" for subs
    using assms(1) by (rule frame_below_fold)
  ultimately show ?thesis
    by (auto simp add: collect_entry_def frame_below_refl split: pyval.splits list.splits)
qed

lemma frame_below_collect:
  "n \<le> pl \<Longrightarrow> n \<le> ol \<Longrightarrow> frame_below n h (collect pl ol entries h)"
  unfolding collect_def
proof (induction entries arbitrary: h)
  case Nil
  then show ?case by (simp add: frame_below_refl)
next
  case (Cons entry entries)
  then show ?case
    using frame_below_trans [OF frame_below_collect_entry [of n pl ol h entry]] by simp
qed

lemma logic_parse_heap_frame:
  "n \<le> next_free h \<Longrightarrow> logic_parse_heap self_at h node = (r, h') \<Longrightarrow> frame_below n h h'"
  "n \<le> next_free h \<Longrightarrow> n \<le> data \<Longrightarrow> cases_loop self_at data h cs = (early, h') \<Longrightarrow>
     frame_below n h h'"
proof (induction self_at h node and self_at data h cs arbitrary: r h' and early h'
    rule: logic_parse_heap_cases_loop.induct)
  case (1 self_at h v cases rest)
  show ?case
  proof (cases "enters_loop (policy_at h self_at) v cases")
    case False
    with 1(3) show ?thesis by (simp add: frame_below_refl)
  next
    case True
    obtain data h1 where n1: "new_list h = (data, h1)" by (cases "new_list h")
    obtain early h2 where loop: "cases_loop self_at data h1 cases = (early, h2)"
      by (cases "cases_loop self_at data h1 cases")
    from 1(2) n1 have f1: "frame_below n h h1" "n \<le> data" "n \<le> next_free h1"
      using frame_below_new_list by blast+
    from 1(1) [OF True n1 [symmetric] f1(3,2) loop] have f2: "frame_below n h1 h2" .
    then have n2: "n \<le> next_free h2" using f1(3) by (simp add: frame_below_def)
    show ?thesis
    proof (cases early)
      case (Some safe)
      with 1(3) True n1 loop have "h' = h2" by simp
      with f1 f2 show ?thesis by (blast intro: frame_below_trans)
    next
      case None
      obtain pl h3 where n3: "new_list h2 = (pl, h3)" by (cases "new_list h2")
      obtain ol h4 where n4: "new_list h3 = (ol, h4)" by (cases "new_list h3")
      from n2 n3 have f3: "frame_below n h2 h3" "n \<le> pl" "n \<le> next_free h3"
        using frame_below_new_list by blast+
      from f3(3) n4 have f4: "frame_below n h3 h4" "n \<le> ol"
        using frame_below_new_list by blast+
      have f5: "frame_below n h4 (collect pl ol (list_at h4 data) h4)"
        using f3(2) f4(2) by (rule frame_below_collect)
      from 1(3) True n1 loop None n3 n4
      have "h' = collect pl ol (list_at h4 data) h4"
        by (auto simp add: Let_def split: sum.splits)
      with f1(1) f2 f3(1) f4(1) f5 show ?thesis by (blast intro: frame_below_trans)
    qed
  qed
next
  case (4 self_at data h c cases)
  obtain r1 h1 where c: "logic_parse_heap self_at h c = (r1, h1)"
    by (cases "logic_parse_heap self_at h c")
  from 4(1) [OF 4(3) c] have f1: "frame_below n h h1" .
  then have n1: "n \<le> next_free h1" using 4(3) by (simp add: frame_below_def)
  show ?case
  proof (cases r1)
    case (Ok fragment ps)
    let ?h2 = "append_item h1 data (PTuple [PStr fragment, PTuple ps])"
    have f2: "frame_below n h1 ?h2" using 4(4) by (rule frame_below_append)
    have n2: "n \<le> next_free ?h2" using n1 by (simp add: next_free_append)
    from 4(5) c Ok have "cases_loop self_at data ?h2 cases = (early, h')" by simp
    from 4(2) [OF c [symmetric] Ok n2 4(4) this] f1 f2
    show ?thesis by (blast intro: frame_below_trans)
  qed (use 4(5) c f1 in auto)
qed (auto simp add: frame_below_refl)


lemma policy_objects_same:
  "same_policy self_at h h' \<Longrightarrow> policy_objects h' self_at = policy_objects h self_at"
  by (cases "cells h self_at") (auto simp add: same_policy_def policy_objects_def)

lemma same_policy_refl: "same_policy self_at h h"
  by (simp add: same_policy_def)

lemma same_policy_trans:
  "same_policy self_at h h' \<Longrightarrow> same_policy self_at h' h'' \<Longrightarrow> same_policy self_at h h''"
  using policy_objects_same [of self_at h h'] by (auto simp add: same_policy_def)

lemma policy_at_same:
  assumes "same_policy self_at h h'"
  shows "policy_at h' self_at = policy_at h self_at"
proof (cases "cells h self_at")
  case (InstanceObj attrs)
  with assms have same: "cells h' self_at = InstanceObj attrs"
    "cells h' (queries_ref attrs) = cells h (queries_ref attrs)"
    "cells h' (items_ref attrs) = cells h (items_ref attrs)"
    "cells h' (tables_ref attrs) = cells h (tables_ref attrs)"
    "cells h' (connections_ref attrs) = cells h (connections_ref attrs)"
    "cells h' (columns_ref attrs) = cells h (columns_ref attrs)"
    "\<forall>a \<in> set (column_lists (cells h (tables_ref attrs))). cells h' a = cells h a"
    by (auto simp add: same_policy_def policy_objects_def)
  have "tables_of h' ob = tables_of h ob"
    if "\<forall>a \<in> set (column_lists ob). cells h' a = cells h a" for ob
    using that by (cases ob) (auto simp add: list_at_def)
  with same InstanceObj show ?thesis
    by (simp add: policy_at_def list_at_def)
qed (use assms in \<open>auto simp add: same_policy_def policy_objects_def policy_at_def\<close>)

lemma well_typed_same:
  assumes "same_policy self_at h h'" and "well_typed h self_at"
  shows "well_typed h' self_at"
proof -
  from assms(2) obtain attrs where inst: "cells h self_at = InstanceObj attrs"
    by (cases "cells h self_at") (auto simp add: well_typed_def)
  with assms(1) have same: "cells h' self_at = InstanceObj attrs"
    "cells h' (queries_ref attrs) = cells h (queries_ref attrs)"
    "cells h' (items_ref attrs) = cells h (items_ref attrs)"
    "cells h' (tables_ref attrs) = cells h (tables_ref attrs)"
    "cells h' (connections_ref attrs) = cells h (connections_ref attrs)"
    "cells h' (columns_ref attrs) = cells h (columns_ref attrs)"
    "\<forall>a \<in> set (column_lists (cells h (tables_ref attrs))). cells h' a = cells h a"
    by (auto simp add: same_policy_def policy_objects_def)
  from assms(1) have objs: "policy_objects h' self_at = policy_objects h self_at"
    by (rule policy_objects_same)
  from assms(1) have "next_free h \<le> next_free h'" by (simp add: same_policy_def)
  with assms(2) inst same objs show ?thesis
    by (auto simp add: well_typed_def list_all_iff)
qed

lemma frame_below_same_policy:
  assumes "well_typed h self_at" and "frame_below (next_free h) h h'"
  shows "same_policy self_at h h'"
  using assms by (auto simp add: well_typed_def same_policy_def frame_below_def list_all_iff)

lemma item_step_rewrites_dict: "item_step P table item = Inr (Some v) \<Longrightarrow> is_dict item"
  by (auto simp add: item_step_def split: if_splits option.splits sum.splits)

lemma policy_object_entry:
  assumes "well_typed h self_at" and "a \<in> set (policy_objects h self_at)"
    and "index < length (list_at h a)"
  shows "\<not> is_dict (list_at h a ! index)"
proof -
  from assms(1) obtain attrs where inst: "cells h self_at = InstanceObj attrs"
    by (cases "cells h self_at") (auto simp add: well_typed_def)
  have strs: "\<not> is_dict (list_of ob ! index)"
    if "strings_only ob \<or> columns_only ob" "index < length (list_of ob)" for ob
  proof (cases ob)
    case (ListObj xs)
    with that have "is_str (xs ! index) \<or> xs ! index = PNone"
      by (auto simp add: list_all_length)
    then show ?thesis using ListObj by (cases "xs ! index") auto
  qed (use that in auto)
  have none: "list_of ob = []" if "is_tables ob \<or> is_columns ob" for ob
    using that by (cases ob) auto
  from assms(2) inst consider "a = self_at" | "a = queries_ref attrs" | "a = items_ref attrs"
    | "a = tables_ref attrs" | "a = connections_ref attrs" | "a = columns_ref attrs"
    | "a \<in> set (column_lists (cells h (tables_ref attrs)))"
    by (auto simp add: policy_objects_def)
  then show ?thesis
  proof cases
    case 1
    with inst assms(3) show ?thesis by (simp add: list_at_def)
  next
    case 7
    with assms(1) inst have "columns_only (cells h a)"
      by (auto simp add: well_typed_def list_all_iff)
    with assms(3) show ?thesis using strs [of "cells h a"] by (simp add: list_at_def)
  qed (use assms(1,3) inst strs none in \<open>auto simp add: well_typed_def list_at_def\<close>)
qed

lemma same_policy_store_item:
  "a \<notin> set (policy_objects h self_at) \<Longrightarrow> same_policy self_at h (store_item h a index v)"
  by (auto simp add: same_policy_def store_item_def split: obj.splits)

lemma items_loop_same_policy:
  "well_typed h self_at \<Longrightarrow> items_loop self_at table a indices h = (early, h') \<Longrightarrow>
   same_policy self_at h h'"
proof (induction indices arbitrary: h)
  case Nil
  then show ?case by (simp add: same_policy_refl)
next
  case (Cons index rest)
  show ?case
  proof (cases "length (list_at h a) \<le> index")
    case True
    with Cons.prems show ?thesis by (simp add: same_policy_refl)
  next
    case False
    show ?thesis
    proof (cases "item_step (policy_at h self_at) table (list_at h a ! index)")
      case (Inl r)
      with False Cons.prems show ?thesis by (simp add: same_policy_refl)
    next
      case (Inr step)
      show ?thesis
      proof (cases step)
        case None
        with Inr False Cons show ?thesis by simp
      next
        case (Some rendered)
        with Inr have "is_dict (list_at h a ! index)" by (simp add: item_step_rewrites_dict)
        with False Cons.prems(1) have "a \<notin> set (policy_objects h self_at)"
          using policy_object_entry [of h self_at a index] by auto
        then have step1: "same_policy self_at h (store_item h a index rendered)"
          by (rule same_policy_store_item)
        from step1 Cons.prems(1) have "well_typed (store_item h a index rendered) self_at"
          by (rule well_typed_same)
        moreover from Cons.prems(2) False Inr Some
        have "items_loop self_at table a rest (store_item h a index rendered) = (early, h')"
          by simp
        ultimately have "same_policy self_at (store_item h a index rendered) h'"
          by (rule Cons.IH)
        with step1 show ?thesis by (rule same_policy_trans)
      qed
    qed
  qed
qed

lemma logic_parse_heap_same_policy:
  assumes "well_typed h self_at"
  shows "same_policy self_at h (snd (logic_parse_heap self_at h node))"
proof -
  obtain r h' where run: "logic_parse_heap self_at h node = (r, h')"
    by (cases "logic_parse_heap self_at h node")
  then have "frame_below (next_free h) h h'"
    using logic_parse_heap_frame(1) [of "next_free h" h self_at node r h'] by simp
  with assms run show ?thesis by (simp add: frame_below_same_policy)
qed

lemma statement_sql_heap_same_policy:
  assumes "well_typed h self_at"
  shows "same_policy self_at h (snd (statement_sql_heap self_at j q items t h))"
proof (cases "map_of j ''logic''")
  case None
  then show ?thesis
    by (simp add: statement_sql_heap_def same_policy_refl split: sum.splits)
next
  case (Some logic)
  obtain r h' where run: "logic_parse_heap self_at h logic = (r, h')"
    by (cases "logic_parse_heap self_at h logic")
  with assms have "same_policy self_at h h'"
    using logic_parse_heap_same_policy [of h self_at logic] by simp
  with Some run show ?thesis
    by (auto simp add: statement_sql_heap_def same_policy_refl
          split: sum.splits outcome.splits option.splits)
qed

lemma sql_parse_heap_same_policy:
  assumes "well_typed h self_at"
  shows "same_policy self_at h (snd (sql_parse_heap self_at j a h))"
proof (cases "required_inputs (request_at h j a)")
  case (Inl r)
  then show ?thesis by (simp add: sql_parse_heap_def same_policy_refl)
next
  case (Inr triple)
  obtain q items t where triple: "triple = (q, items, t)" by (cases triple)
  obtain early h' where loop: "items_loop self_at t a [0 ..< length items] h = (early, h')"
    by (cases "items_loop self_at t a [0 ..< length items] h")
  with assms have s1: "same_policy self_at h h'" by (rule items_loop_same_policy)
  from s1 assms have "well_typed h' self_at" by (rule well_typed_same)
  then have "same_policy self_at h' (snd (statement_sql_heap self_at j' q items' t h'))"
    for j' items'
    by (rule statement_sql_heap_same_policy)
  with s1 have "same_policy self_at h (snd (assemble_heap self_at j' q items' t h'))"
    for j' items'
    by (auto simp add: assemble_heap_def split: option.splits intro: same_policy_trans)
  with Inr triple loop s1 show ?thesis
    by (auto simp add: sql_parse_heap_def same_policy_refl split: option.splits)
qed

subsection \<open>Calls on the store return what the compilers on values return\<close>

lemma logic_parse_loop:
  "enters_loop P v cs \<Longrightarrow>
   logic_parse P (PDict ((v, PList cs) # rest)) =
     (case parse_cases P cs of
        Inl safe \<Rightarrow> safe
      | Inr d \<Rightarrow> Ok (''('' @ join ('' '' @ upper v @ '' '') (map fst d) @ '')'')
                    (concat (map snd d)))"
  by (simp add: enters_loop_def)

lemma cells_append_item:
  "cells h a = ListObj xs \<Longrightarrow> cells (append_item h a v) = (cells h)(a := ListObj (xs @ [v]))"
  by (simp add: append_item_def)

lemma cells_fold_append:
  "cells h a = ListObj xs \<Longrightarrow>
   cells (fold (\<lambda>sub h'. append_item h' a sub) subs h) = (cells h)(a := ListObj (xs @ subs))"
proof (induction subs arbitrary: h xs)
  case Nil
  then show ?case by auto
next
  case (Cons sub subs)
  have "cells (append_item h a sub) a = ListObj (xs @ [sub])"
    using Cons.prems by (simp add: cells_append_item)
  from Cons.IH [OF this] Cons.prems show ?case
    by (auto simp add: cells_append_item fun_eq_iff)
qed

lemma cells_collect:
  assumes "pl \<noteq> ol"
  shows "cells h pl = ListObj xs \<Longrightarrow> cells h ol = ListObj ys \<Longrightarrow>
    cells (collect pl ol (map entry_of d) h) =
      (cells h)(pl := ListObj (xs @ concat (map snd d)), ol := ListObj (ys @ map (PStr \<circ> fst) d))"
proof (induction d arbitrary: h xs ys)
  case Nil
  then show ?case by (auto simp add: collect_def)
next
  case (Cons e d)
  let ?h1 = "fold (\<lambda>sub h'. append_item h' pl sub) (snd e) h"
  let ?h2 = "append_item ?h1 ol (PStr (fst e))"
  have c1: "cells ?h1 = (cells h)(pl := ListObj (xs @ snd e))"
    using Cons.prems(1) by (rule cells_fold_append)
  with assms Cons.prems(2) have c2:
    "cells ?h2 = (cells h)(pl := ListObj (xs @ snd e), ol := ListObj (ys @ [PStr (fst e)]))"
    by (simp add: cells_append_item)
  have step: "collect_entry pl ol (entry_of e) h = ?h2"
    by (simp add: collect_entry_def entry_of_def)
  from c2 assms have "cells ?h2 pl = ListObj (xs @ snd e)" "cells ?h2 ol = ListObj (ys @ [PStr (fst e)])"
    by simp_all
  from Cons.IH [OF this] c2 step show ?case
    by (auto simp add: collect_def fun_eq_iff)
qed

lemma same_policy_append_item:
  "a \<notin> set (policy_objects h self_at) \<Longrightarrow> same_policy self_at h (append_item h a v)"
  by (auto simp add: same_policy_def append_item_def split: obj.splits)

lemma policy_objects_allocated:
  "well_typed h self_at \<Longrightarrow> p \<in> set (policy_objects h self_at) \<Longrightarrow> p < next_free h"
  by (simp add: well_typed_def list_all_iff)

lemma logic_parse_heap_result:
  "well_typed h self_at \<Longrightarrow> logic_parse_heap self_at h node = (r, h') \<Longrightarrow>
     r = logic_parse (policy_at h self_at) node"
  "well_typed h self_at \<Longrightarrow> data < next_free h \<Longrightarrow> data \<notin> set (policy_objects h self_at) \<Longrightarrow>
   cells h data = ListObj pre \<Longrightarrow> cases_loop self_at data h cs = (early, h') \<Longrightarrow>
     (case parse_cases (policy_at h self_at) cs of
        Inl safe \<Rightarrow> early = Some safe
      | Inr d \<Rightarrow> early = None \<and> cells h' data = ListObj (pre @ map entry_of d))"
proof (induction self_at h node and self_at data h cs arbitrary: r h' and early h' pre
    rule: logic_parse_heap_cases_loop.induct)
  case (1 self_at h v cases rest)
  let ?P = "policy_at h self_at"
  show ?case
  proof (cases "enters_loop ?P v cases")
    case False
    with 1(3) show ?thesis by (auto simp del: logic_parse.simps)
  next
    case True
    obtain data h1 where n1: "new_list h = (data, h1)" by (cases "new_list h")
    then have data: "data = next_free h" "cells h1 data = ListObj []" "data < next_free h1"
      and f1: "frame_below (next_free h) h h1"
      by (auto simp add: new_list_def frame_below_def)
    from 1(2) f1 have sp1: "same_policy self_at h h1" by (rule frame_below_same_policy)
    from sp1 1(2) have wt1: "well_typed h1 self_at" by (rule well_typed_same)
    from sp1 have P1: "policy_at h1 self_at = ?P" by (rule policy_at_same)
    from sp1 have objs1: "policy_objects h1 self_at = policy_objects h self_at"
      by (rule policy_objects_same)
    have fresh: "data \<notin> set (policy_objects h1 self_at)"
      using policy_objects_allocated [OF 1(2)] data(1) objs1 by auto
    obtain early h2 where loop: "cases_loop self_at data h1 cases = (early, h2)"
      by (cases "cases_loop self_at data h1 cases")
    from 1(1) [OF True n1 [symmetric] wt1 data(3) fresh data(2) loop] P1
    have res: "case parse_cases ?P cases of
        Inl safe \<Rightarrow> early = Some safe
      | Inr d \<Rightarrow> early = None \<and> cells h2 data = ListObj (map entry_of d)"
      by (auto split: sum.splits)
    show ?thesis
    proof (cases "parse_cases ?P cases")
      case (Inl safe)
      with res 1(3) True n1 loop show ?thesis
        by (auto simp add: logic_parse_loop simp del: logic_parse.simps)
    next
      case (Inr d)
      with res have early: "early = None" and stored: "cells h2 data = ListObj (map entry_of d)"
        by simp_all
      have f2: "frame_below data h1 h2"
        using logic_parse_heap_frame(2) [of data h1 data self_at cases early h2]
          data(3) loop by simp
      then have nf2: "data < next_free h2" using data(3) by (simp add: frame_below_def)
      obtain pl h3 where n3: "new_list h2 = (pl, h3)" by (cases "new_list h2")
      obtain ol h4 where n4: "new_list h3 = (ol, h4)" by (cases "new_list h3")
      from n3 n4 nf2 stored have h4: "pl \<noteq> ol" "cells h4 pl = ListObj []" "cells h4 ol = ListObj []"
        "list_at h4 data = map entry_of d"
        by (auto simp add: new_list_def list_at_def)
      let ?h5 = "collect pl ol (list_at h4 data) h4"
      from h4 have "cells ?h5 =
          (cells h4)(pl := ListObj (concat (map snd d)), ol := ListObj (map (PStr \<circ> fst) d))"
        using cells_collect [of pl ol h4 "[]" "[]" d] by simp
      with h4(1) have "list_at ?h5 ol = map PStr (map fst d)"
        and par: "list_at ?h5 pl = concat (map snd d)"
        by (simp_all add: list_at_def)
      then have out: "strs_of (list_at ?h5 ol) = Inr (map fst d)"
        by (simp only: strs_of_strings)
      from 1(3) True n1 loop early n3 n4 out par Inr show ?thesis
        by (auto simp add: logic_parse_loop Let_def simp del: logic_parse.simps)
    qed
  qed
next
  case (4 self_at data h c cases)
  let ?P = "policy_at h self_at"
  obtain r1 h1 where c: "logic_parse_heap self_at h c = (r1, h1)"
    by (cases "logic_parse_heap self_at h c")
  from 4(1) [OF 4(3) c] have r1: "r1 = logic_parse ?P c" .
  have f1: "frame_below (next_free h) h h1"
    using logic_parse_heap_frame(1) [of "next_free h" h self_at c r1 h1] c by simp
  from 4(3) f1 have sp1: "same_policy self_at h h1" by (rule frame_below_same_policy)
  from sp1 4(3) have wt1: "well_typed h1 self_at" by (rule well_typed_same)
  from sp1 have P1: "policy_at h1 self_at = ?P" by (rule policy_at_same)
  from sp1 have objs1: "policy_objects h1 self_at = policy_objects h self_at"
    by (rule policy_objects_same)
  from f1 4(4,6) have d1: "cells h1 data = ListObj pre" "data < next_free h1"
    by (auto simp add: frame_below_def)
  show ?case
  proof (cases r1)
    case (Ok fragment ps)
    let ?h2 = "append_item h1 data (PTuple [PStr fragment, PTuple ps])"
    from 4(5) objs1 have "same_policy self_at h1 ?h2"
      by (simp add: same_policy_append_item)
    with sp1 have sp2: "same_policy self_at h ?h2" by (rule same_policy_trans)
    from sp2 4(3) have wt2: "well_typed ?h2 self_at" by (rule well_typed_same)
    from sp2 have P2: "policy_at ?h2 self_at = ?P" by (rule policy_at_same)
    from sp2 have objs2: "policy_objects ?h2 self_at = policy_objects h self_at"
      by (rule policy_objects_same)
    from d1 have d2: "cells ?h2 data = ListObj (pre @ [entry_of (fragment, ps)])"
      "data < next_free ?h2"
      by (simp_all add: cells_append_item next_free_append entry_of_def)
    from 4(7) c Ok have run: "cases_loop self_at data ?h2 cases = (early, h')" by simp
    from 4(2) [OF c [symmetric] Ok wt2 d2(2) _ d2(1) run] 4(5) objs2 P2
    have "case parse_cases ?P cases of
        Inl safe \<Rightarrow> early = Some safe
      | Inr d \<Rightarrow> early = None
          \<and> cells h' data = ListObj ((pre @ [entry_of (fragment, ps)]) @ map entry_of d)"
      by (auto split: sum.splits)
    moreover from r1 Ok have "logic_parse ?P c = Ok fragment ps" by simp
    ultimately show ?thesis by (auto split: sum.splits)
  next
    case (Fail reason)
    with r1 have "logic_parse ?P c = Fail reason" by simp
    with 4(7) c Fail show ?thesis by simp
  next
    case (Raised e)
    with r1 have "logic_parse ?P c = Raised e" by simp
    with 4(7) c Raised show ?thesis by simp
  next
    case NoResult
    with r1 have "logic_parse ?P c = NoResult" by simp
    with 4(7) c NoResult show ?thesis by simp
  qed
qed (auto simp del: logic_parse.simps split: sum.splits)

lemma check_items_step:
  assumes "map_of (ALLOWED_TABLES P) table = Some cols"
  shows "check_items P cols (item # rest) =
     (case item_step P table item of
        Inl r \<Rightarrow> (Some r, item # rest)
      | Inr None \<Rightarrow> (case check_items P cols rest of (early, rest') \<Rightarrow> (early, item # rest'))
      | Inr (Some v) \<Rightarrow> (case check_items P cols rest of (early, rest') \<Rightarrow> (early, v # rest')))"
  using assms by (auto simp add: item_step_def split: sum.splits prod.splits)

lemma list_at_store_item:
  "cells h a = ListObj xs \<Longrightarrow> list_at (store_item h a index v) a = xs[index := v]"
  by (simp add: store_item_def list_at_def)

lemma items_loop_check_items:
  assumes "well_typed h self_at"
    and "map_of (ALLOWED_TABLES (policy_at h self_at)) table = Some cols"
    and "i \<le> length (list_at h a)"
    and "items_loop self_at table a [i ..< length (list_at h a)] h = (early, h')"
  shows "check_items (policy_at h self_at) cols (drop i (list_at h a))
           = (early, drop i (list_at h' a))
       \<and> take i (list_at h' a) = take i (list_at h a)
       \<and> length (list_at h' a) = length (list_at h a)"
  using assms
proof (induction "length (list_at h a) - i" arbitrary: i h)
  case 0
  then show ?case by simp
next
  case (Suc k)
  let ?xs = "list_at h a"
  let ?P = "policy_at h self_at"
  from Suc.hyps(2) have i: "i < length ?xs" by simp
  then have upt: "[i ..< length ?xs] = i # [Suc i ..< length ?xs]"
    by (simp add: upt_conv_Cons)
  from i have dropi: "drop i ?xs = ?xs ! i # drop (Suc i) ?xs"
    by (simp add: Cons_nth_drop_Suc)
  from i obtain xs where cell: "cells h a = ListObj xs"
    by (cases "cells h a") (auto simp add: list_at_def)
  then have xs: "?xs = xs" by (simp add: list_at_def)
  have step: "check_items ?P cols (drop i ?xs) =
     (case item_step ?P table (?xs ! i) of
        Inl r \<Rightarrow> (Some r, ?xs ! i # drop (Suc i) ?xs)
      | Inr None \<Rightarrow>
          (case check_items ?P cols (drop (Suc i) ?xs) of
             (early, rest') \<Rightarrow> (early, ?xs ! i # rest'))
      | Inr (Some v) \<Rightarrow>
          (case check_items ?P cols (drop (Suc i) ?xs) of
             (early, rest') \<Rightarrow> (early, v # rest')))"
    by (subst dropi) (rule check_items_step [OF Suc.prems(2)])
  show ?case
  proof (cases "item_step ?P table (?xs ! i)")
    case (Inl r)
    with Suc.prems(4) i upt have "early = Some r" "h' = h" by simp_all
    with Inl dropi step show ?thesis by simp
  next
    case (Inr step)
    show ?thesis
    proof (cases step)
      case None
      with Inr Suc.prems(4) i upt
      have run: "items_loop self_at table a [Suc i ..< length ?xs] h = (early, h')" by simp
      from Suc.hyps(2) have "k = length ?xs - Suc i" by simp
      from Suc.hyps(1) [OF this Suc.prems(1,2) _ run] i
      have IH: "check_items ?P cols (drop (Suc i) ?xs) = (early, drop (Suc i) (list_at h' a))"
        "take (Suc i) (list_at h' a) = take (Suc i) ?xs" "length (list_at h' a) = length ?xs"
        by simp_all
      from IH(2,3) i have nth: "list_at h' a ! i = ?xs ! i"
        by (metis lessI nth_take)
      from IH(3) i
      have "list_at h' a ! i # drop (Suc i) (list_at h' a) = drop i (list_at h' a)"
        by (simp add: Cons_nth_drop_Suc)
      with nth have dr: "drop i (list_at h' a) = ?xs ! i # drop (Suc i) (list_at h' a)"
        by simp
      from IH(2) have "take i (take (Suc i) (list_at h' a)) = take i (take (Suc i) ?xs)"
        by simp
      then have tk: "take i (list_at h' a) = take i ?xs" by (simp add: min_def)
      from IH(1,3) Inr None dr tk step show ?thesis
        by simp
    next
      case (Some v)
      let ?h1 = "store_item h a i v"
      from Inr Some have "is_dict (?xs ! i)" by (simp add: item_step_rewrites_dict)
      with i Suc.prems(1) have "a \<notin> set (policy_objects h self_at)"
        using policy_object_entry [of h self_at a i] by auto
      then have sp: "same_policy self_at h ?h1" by (rule same_policy_store_item)
      from sp Suc.prems(1) have wt1: "well_typed ?h1 self_at" by (rule well_typed_same)
      from sp have P1: "policy_at ?h1 self_at = ?P" by (rule policy_at_same)
      from cell have l1: "list_at ?h1 a = xs[i := v]" by (rule list_at_store_item)
      with xs have len1: "length (list_at ?h1 a) = length ?xs" by simp
      from Inr Some Suc.prems(4) i upt len1
      have run: "items_loop self_at table a [Suc i ..< length (list_at ?h1 a)] ?h1 = (early, h')"
        by simp
      from Suc.hyps(2) len1 have "k = length (list_at ?h1 a) - Suc i" by simp
      from Suc.hyps(1) [OF this wt1 _ _ run] P1 Suc.prems(2) i len1
      have IH: "check_items ?P cols (drop (Suc i) (list_at ?h1 a))
                  = (early, drop (Suc i) (list_at h' a))"
        "take (Suc i) (list_at h' a) = take (Suc i) (list_at ?h1 a)"
        "length (list_at h' a) = length ?xs"
        by simp_all
      from l1 xs have d1: "drop (Suc i) (list_at ?h1 a) = drop (Suc i) ?xs" by simp
      from l1 xs i have t1: "take i (list_at ?h1 a) = take i ?xs" "list_at ?h1 a ! i = v"
        by simp_all
      from IH(2,3) i len1 have nth: "list_at h' a ! i = v"
        using t1(2) by (metis lessI nth_take)
      from IH(3) i
      have "list_at h' a ! i # drop (Suc i) (list_at h' a) = drop i (list_at h' a)"
        by (simp add: Cons_nth_drop_Suc)
      with nth have dr: "drop i (list_at h' a) = v # drop (Suc i) (list_at h' a)"
        by simp
      from IH(2) have "take i (take (Suc i) (list_at h' a)) = take i (take (Suc i) (list_at ?h1 a))"
        by simp
      then have tk: "take i (list_at h' a) = take i ?xs" using t1(1) by (simp add: min_def)
      from IH(1) d1 Inr Some dr tk IH(3) step show ?thesis
        by simp
    qed
  qed
qed

lemma statement_sql_heap_result:
  assumes "well_typed h self_at"
  shows "fst (statement_sql_heap self_at j q items t h)
       = statement_sql (policy_at h self_at) j q items t"
proof (cases "map_of j ''logic''")
  case None
  then show ?thesis
    by (simp add: statement_sql_heap_def statement_sql_def split: sum.splits)
next
  case (Some logic)
  obtain r h' where run: "logic_parse_heap self_at h logic = (r, h')"
    by (cases "logic_parse_heap self_at h logic")
  with assms have "logic_parse (policy_at h self_at) logic = r"
    using logic_parse_heap_result(1) [of h self_at logic r h'] by simp
  with Some run show ?thesis
    by (auto simp add: statement_sql_heap_def statement_sql_def Let_def
          split: sum.splits outcome.splits option.splits)
qed

lemma assemble_heap_result:
  assumes "well_typed h self_at"
    and "map_of j' ''connection'' = map_of j ''connection''"
    and "map_of j' ''logic'' = map_of j ''logic''"
  shows "fst (assemble_heap self_at j q items t h) = assemble (policy_at h self_at) j' q items t"
proof -
  have "statement_sql P j' q items t = statement_sql P j q items t" for P
    by (simp only: statement_sql_def assms(2,3))
  with assms show ?thesis
    by (simp add: assemble_heap_def assemble_def statement_sql_heap_result split: option.splits)
qed

lemma sql_parse_heap_result:
  assumes "well_typed h self_at"
  shows "fst (sql_parse_heap self_at j a h)
       = fst (sql_parse \<lparr>self = policy_at h self_at, json_input = request_at h j a\<rparr>)"
proof (cases "required_inputs (request_at h j a)")
  case (Inl r)
  then show ?thesis by (simp add: sql_parse_heap_def sql_parse_def)
next
  case (Inr triple)
  let ?P = "policy_at h self_at"
  obtain q items t where triple: "triple = (q, items, t)" by (cases triple)
  with Inr have "map_of (request_at h j a) ''items'' = Some (PList items)"
    by (simp add: required_inputs_items)
  then have items: "items = list_at h a"
    by (simp add: request_at_def AList.update_conv')
  show ?thesis
  proof (cases "q \<in> set (ALLOWED_QUERIES ?P)")
    case False
    with Inr triple show ?thesis by (simp add: sql_parse_heap_def sql_parse_def)
  next
    case True
    show ?thesis
    proof (cases "map_of (ALLOWED_TABLES ?P) t")
      case None
      with Inr triple True show ?thesis by (simp add: sql_parse_heap_def sql_parse_def)
    next
      case (Some cols)
      obtain early h' where loop: "items_loop self_at t a [0 ..< length items] h = (early, h')"
        by (cases "items_loop self_at t a [0 ..< length items] h")
      with assms Some items
      have tree: "check_items ?P cols items = (early, list_at h' a)"
        using items_loop_check_items [of h self_at t cols 0 a early h'] by simp
      from assms loop have sp: "same_policy self_at h h'" by (rule items_loop_same_policy)
      from sp assms have wt': "well_typed h' self_at" by (rule well_typed_same)
      from sp have P': "policy_at h' self_at = ?P" by (rule policy_at_same)
      have "fst (assemble_heap self_at (request_at h' j a) q (list_at h' a) t h')
          = assemble ?P (AList.update ''items'' (PList (list_at h' a)) (request_at h j a)) q
              (list_at h' a) t"
        using assemble_heap_result [OF wt',
            of "AList.update ''items'' (PList (list_at h' a)) (request_at h j a)"
               "request_at h' j a" q "list_at h' a" t] P'
        by (simp add: request_at_def AList.update_conv')
      with Inr triple True Some loop tree show ?thesis
        by (auto simp add: sql_parse_heap_def sql_parse_def Let_def split: option.splits)
    qed
  qed
qed

lemma scenario_heap_well_typed: "well_typed scenario_heap 0"
  by (simp add: well_typed_def policy_objects_def scenario_heap_def scenario_cells_def
        scenario_attributes_def)

lemma scenario_heap_objects: "policy_objects scenario_heap 0 = [0, 1, 2, 3, 4, 5, 6]"
  by (simp add: policy_objects_def scenario_heap_def scenario_cells_def scenario_attributes_def)

lemma scenario_heap_rewrite:
  "cells (snd (sql_parse_heap 0 aggregate_request 7 scenario_heap)) 7 = ListObj [PStr ''COUNT(*)'']"
  by code_simp

section \<open>The claims\<close>

text \<open>
  C1. On every successful compilation the number of \<open>?\<close> placeholders in the text equals
  the number of parameters. The code breaks this: a string operand of \<open>BETWEEN\<close> passes
  \<open>is_valid_value\<close> on a string column, the text gets the two placeholders of
  \<open>BETWEEN ? AND ?\<close>, and \<open>tuple(operand)\<close> binds one parameter per character. With the
  policy of Scenario A, \<open>{"creature": {"BETWEEN": "owlbear"}}\<close> compiles to two
  placeholders and seven parameters, through \<open>logic_parse\<close> and through \<open>sql_parse\<close>.
\<close>

theorem between_string_operand_mismatch:
  "logic_parse scenario_policy (PDict [(''creature'', PDict [(''BETWEEN'', PStr ''owlbear'')])])
     = Ok ''creature BETWEEN ? AND ?''
          [PStr ''o'', PStr ''w'', PStr ''l'', PStr ''b'', PStr ''e'', PStr ''a'', PStr ''r'']
   \<and> fst (sql_parse \<lparr>self = scenario_policy, json_input =
          [(''query'', PStr ''SELECT''), (''items'', PList [PStr ''*'']),
           (''table'', PStr ''images''), (''connection'', PStr ''WHERE''),
           (''logic'', PDict [(''creature'', PDict [(''BETWEEN'', PStr ''owlbear'')])])]\<rparr>)
     = Ok ''SELECT * FROM images WHERE creature BETWEEN ? AND ?''
          [PStr ''o'', PStr ''w'', PStr ''l'', PStr ''b'', PStr ''e'', PStr ''a'', PStr ''r'']
   \<and> count_list ''SELECT * FROM images WHERE creature BETWEEN ? AND ?'' (CHR ''?'') = 2"
  by code_simp

text \<open>
  C2. Scenario A: the constructor, given the table as \<open>{"images": []}\<close>, builds
  \<open>scenario_policy\<close>, and \<open>sql_parse\<close> on the request returns the text
  \<open>SELECT * FROM images WHERE (creature = ? AND (userID = ? OR userID = ?))\<close> with the
  parameters \<open>("owlbear", 555, 111)\<close>, leaving the request as it was.
\<close>

theorem scenario_a_compiles:
  "init [''SELECT''] [''*''] [TableDict [(''images'', Columns [])]] [''WHERE'']
        [(''creature'', KStr), (''userID'', KInt)] = Inr scenario_policy
   \<and> sql_parse \<lparr>self = scenario_policy, json_input = scenario_request\<rparr> =
       (Ok ''SELECT * FROM images WHERE (creature = ? AND (userID = ? OR userID = ?))''
           [PStr ''owlbear'', PInt 555, PInt 111],
        \<lparr>self = scenario_policy, json_input = scenario_request\<rparr>)"
  by code_simp

text \<open>
  C3. Every failure is returned as \<open>(False, reason)\<close>; compilation never raises and never
  ends without a result. The code breaks this. With the policy of Scenario A:
  the logic \<open>{"=": 5}\<close>, whose key is a comparator, makes \<open>list(5)\<close> raise a
  \<open>TypeError\<close> in \<open>is_valid_comparison\<close>; the logic \<open>{"=": {"foo": 1}}\<close> matches no
  branch and \<open>logic_parse\<close> returns \<open>None\<close>; a request with a valid \<open>logic\<close> and no
  \<open>connection\<close> raises a \<open>KeyError\<close> when the final text is formatted.
\<close>

theorem compilation_raises_or_returns_nothing:
  "logic_parse scenario_policy (PDict [(''='', PInt 5)]) = Raised TypeError
   \<and> logic_parse scenario_policy (PDict [(''='', PDict [(''foo'', PInt 1)])]) = NoResult
   \<and> fst (sql_parse \<lparr>self = scenario_policy, json_input =
          [(''query'', PStr ''SELECT''), (''items'', PList [PStr ''*'']),
           (''table'', PStr ''images''),
           (''logic'', PDict [(''userID'', PDict [(''='', PInt 555)])])]\<rparr>)
     = Raised KeyError"
  by code_simp

text \<open>
  C4. On every successful compilation no scalar of the input is copied into the text, and
  every identifier in the text passed whitelist validation. The code breaks this for a
  table given as a bare name, which the constructor stores with the column list
  \<open>[None]\<close>: the aggregate node \<open>{"COUNT": null}\<close> is accepted, because \<open>None\<close> is in
  that list, and the \<open>null\<close> of the request is formatted into the text as the
  identifier \<open>None\<close>, which no whitelist of the caller contains.
\<close>

theorem null_aggregate_argument_embedded:
  "init [''SELECT''] [''*''] [TableName ''images''] [''WHERE'']
        [(''creature'', KStr), (''userID'', KInt)] = Inr bare_policy
   \<and> sql_parse \<lparr>self = bare_policy, json_input = null_aggregate_request\<rparr> =
       (Ok ''SELECT COUNT(None) FROM images'' [],
        \<lparr>self = bare_policy, json_input =
           [(''query'', PStr ''SELECT''), (''items'', PList [PStr ''COUNT(None)'']),
            (''table'', PStr ''images'')]\<rparr>)"
  by code_simp

text \<open>
  C5, as amended. For a table registered with an empty column list, or as a bare name
  (stored with the list \<open>[None]\<close>), a request of string items and no filter is accepted
  exactly when every item is in \<open>allowed_items\<close>; the first item that is not is named in
  the failure. Being declared in \<open>allowed_columns\<close> plays no part.
\<close>

theorem empty_column_list_items:
  assumes "init qs its tabs cs cols = Inr P"
    and "map_of (ALLOWED_TABLES P) t = Some tcols" and "set tcols \<subseteq> {None}"
    and "q \<in> set qs"
  shows "fst (sql_parse \<lparr>self = P, json_input =
            [(''query'', PStr q), (''items'', PList (map PStr ss)), (''table'', PStr t)]\<rparr>)
         = (case find (\<lambda>s. s \<notin> set its) ss of
              None \<Rightarrow> Ok (q @ '' '' @ join '','' ss @ '' FROM '' @ t) []
            | Some s \<Rightarrow> Fail (''Item not allowed - '' @ s))"
proof -
  from assms(1) obtain td where P: "P = policy qs its td cs cols"
    by (auto dest: init_policy)
  then have its: "ALLOWED_ITEMS P = its" and qs: "ALLOWED_QUERIES P = qs"
    by (simp_all add: policy_def)
  show ?thesis
    using assms(2-4) check_items_strings [OF assms(3), of P ss]
    by (simp add: sql_parse_def required_inputs_def its qs assemble_def statement_sql_def
          strs_of_strings Let_def split: option.splits)
qed

theorem empty_column_list_items_witness:
  "fst (sql_parse \<lparr>self = policy [''SELECT''] [''*''] [(''images'', [None])] [''WHERE'']
                           [(''creature'', KStr), (''userID'', KInt)],
                  json_input = [(''query'', PStr ''SELECT''),
                                (''items'', PList (map PStr [''*'', ''userID''])),
                                (''table'', PStr ''images'')]\<rparr>)
     = Fail ''Item not allowed - userID''"
  using empty_column_list_items [of "[''SELECT'']" "[''*'']" "[TableName ''images'']" "[''WHERE'']"
      "[(''creature'', KStr), (''userID'', KInt)]"
      "policy [''SELECT''] [''*''] [(''images'', [None])] [''WHERE'']
         [(''creature'', KStr), (''userID'', KInt)]"
      "''images''" "[None]" "''SELECT''" "[''*'', ''userID'']"]
  by (simp add: init_def policy_def)

text \<open>
  C5 as stated fails: in Scenario A the table \<open>images\<close> has the empty column list and
  \<open>creature\<close> is declared in \<open>allowed_columns\<close>, yet the item \<open>creature\<close> is refused.
\<close>

theorem declared_column_rejected_counterexample:
  "map_of (ALLOWED_TABLES scenario_policy) ''images'' = Some []
   \<and> map_of (ALLOWED_COLUMNS scenario_policy) ''creature'' = Some KStr
   \<and> fst (sql_parse \<lparr>self = scenario_policy, json_input =
          [(''query'', PStr ''SELECT''), (''items'', PList [PStr ''creature'']),
           (''table'', PStr ''images'')]\<rparr>)
     = Fail ''Item not allowed - creature''"
  by code_simp

text \<open>
  C6, as amended. \<open>sql_parse\<close> changes the request in its items list only, and only
  after the required fields, the query and the table have been accepted: reading the
  items in order up to the first one it refuses, it replaces each item that is not listed
  (in \<open>allowed_items\<close> or in the column list of the table) but is an aggregate node
  \<open>{FUNC: arg}\<close> with an aggregate tag and a listed argument by the string
  \<open>FUNC(arg)\<close>, and leaves every other item and every other field as it was. When the
  items list holds no object (no aggregate node), the call leaves the request as it was
  and a second call on the same request returns the result of the first.
\<close>

theorem sql_parse_rewrites_aggregate_items:
  "json_input (snd (sql_parse s)) = request_after s
   \<and> ((\<forall>items. map_of (json_input s) ''items'' = Some (PList items)
          \<longrightarrow> (\<forall>i \<in> set items. \<not> is_dict i))
        \<longrightarrow> snd (sql_parse s) = s
            \<and> fst (sql_parse (snd (sql_parse s))) = fst (sql_parse s))"
proof (intro conjI impI)
  have after: "check_items P cols items = (early, items') \<Longrightarrow> items' = items_after P cols items"
    for P cols items early items'
    using check_items_after [of P cols items] by simp
  show "json_input (snd (sql_parse s)) = request_after s"
    by (auto simp add: sql_parse_def request_after_def Let_def
          split: sum.splits prod.splits option.splits dest!: after)
next
  assume plain: "\<forall>items. map_of (json_input s) ''items'' = Some (PList items)
          \<longrightarrow> (\<forall>i \<in> set items. \<not> is_dict i)"
  have "snd (sql_parse s) = s"
  proof (cases "required_inputs (json_input s)")
    case (Inl r)
    then show ?thesis by (simp add: sql_parse_def)
  next
    case (Inr triple)
    obtain q items t where triple: "triple = (q, items, t)" by (cases triple)
    with Inr have items: "map_of (json_input s) ''items'' = Some (PList items)"
      by (simp add: required_inputs_items)
    with plain have "snd (check_items P cols items) = items" for P cols
      by (simp add: check_items_no_dict)
    then have same: "check_items P cols items = (early, items') \<Longrightarrow> items' = items"
      for P cols early items'
      by (metis snd_conv)
    with Inr triple items show ?thesis
      by (auto simp add: sql_parse_def Let_def AList.update_triv split: option.splits prod.splits
            dest!: same)
  qed
  then show "snd (sql_parse s) = s" "fst (sql_parse (snd (sql_parse s))) = fst (sql_parse s)"
    by simp_all
qed

theorem sql_parse_rewrites_aggregate_items_witness:
  "json_input (snd (sql_parse \<lparr>self = scenario_policy, json_input = aggregate_request\<rparr>))
     = [(''query'', PStr ''SELECT''), (''items'', PList [PStr ''COUNT(*)'']),
        (''table'', PStr ''images'')]
   \<and> snd (sql_parse \<lparr>self = scenario_policy, json_input = scenario_request\<rparr>)
     = \<lparr>self = scenario_policy, json_input = scenario_request\<rparr>
   \<and> fst (sql_parse (snd (sql_parse \<lparr>self = scenario_policy, json_input = scenario_request\<rparr>)))
     = fst (sql_parse \<lparr>self = scenario_policy, json_input = scenario_request\<rparr>)"
  using sql_parse_rewrites_aggregate_items
      [of "\<lparr>self = scenario_policy, json_input = aggregate_request\<rparr>"]
    sql_parse_rewrites_aggregate_items
      [of "\<lparr>self = scenario_policy, json_input = scenario_request\<rparr>"]
  by (simp add: request_after_def required_inputs_def aggregate_request_def scenario_request_def
        scenario_policy_def policy_def items_after_def item_accepted_def item_after_def
        item_listed_def)

text \<open>
  C6 as stated fails: the first call on a request whose items are \<open>[{"COUNT": "*"}]\<close>
  succeeds and leaves the item rewritten to the string \<open>COUNT(*)\<close>; the second call on the
  same request refuses that string.
\<close>

theorem sql_parse_second_call_counterexample:
  "fst (sql_parse \<lparr>self = scenario_policy, json_input = aggregate_request\<rparr>)
     = Ok ''SELECT COUNT(*) FROM images'' []
   \<and> fst (sql_parse (snd (sql_parse \<lparr>self = scenario_policy, json_input = aggregate_request\<rparr>)))
     = Fail ''Item not allowed - COUNT(*)''"
  by code_simp

text \<open>
  C7. A logical node with fewer than two children fails with the reason
  \<open>Invalid boolean length, must be >= 2\<close>. The code breaks this for the empty list: under
  every policy, \<open>{"AND": []}\<close> and \<open>{"OR": []}\<close> raise an \<open>IndexError\<close>, because
  \<open>is_valid_comparison\<close> reads \<open>list(comparison)[0]\<close> before the length is tested.
\<close>

theorem empty_child_list_raises:
  "logic_parse (policy qs its td cs cols) (PDict [(''AND'', PList [])]) = Raised IndexError
   \<and> logic_parse (policy qs its td cs cols) (PDict [(''OR'', PList [])]) = Raised IndexError"
  by (simp add: compiler_defs)

text \<open>
  C8. \<open>BETWEEN\<close> with an operand list of length other than 2 always fails. The code
  breaks this when an operand is the empty object: on \<open>{"userID": {"BETWEEN": [{}]}}\<close>
  the validation of the operands reaches \<open>list({})[0]\<close> in \<open>is_valid_aggregate\<close> and
  \<open>logic_parse\<close> raises an \<open>IndexError\<close>, where a failure was to be returned.
\<close>

theorem between_empty_object_raises:
  "logic_parse scenario_policy (PDict [(''userID'', PDict [(''BETWEEN'', PList [PDict []])])])
     = Raised IndexError"
  by code_simp

text \<open>
  C9. With the policy and the request as objects of one store, where a write of the
  compilers can reach any list: for a policy of the specification's types, a call of
  \<open>sql_parse\<close> and a call of \<open>logic_parse\<close> leave every object of the policy (the
  instance, the lists of queries, items and connections, \<open>table_dict\<close> and its column
  lists, the dictionary of columns) with the content it had, also when the items list of
  the request is one of these lists; and the calls return what the compilers on values
  return for the policy and the request read from the store.
\<close>

theorem policy_objects_unchanged:
  assumes "well_typed h self_at"
  shows "(\<forall>p \<in> set (policy_objects h self_at).
            cells (snd (sql_parse_heap self_at j a h)) p = cells h p)
       \<and> (\<forall>p \<in> set (policy_objects h self_at).
            cells (snd (logic_parse_heap self_at h node)) p = cells h p)
       \<and> policy_at (snd (sql_parse_heap self_at j a h)) self_at = policy_at h self_at
       \<and> policy_at (snd (logic_parse_heap self_at h node)) self_at = policy_at h self_at
       \<and> fst (sql_parse_heap self_at j a h)
           = fst (sql_parse \<lparr>self = policy_at h self_at, json_input = request_at h j a\<rparr>)
       \<and> fst (logic_parse_heap self_at h node) = logic_parse (policy_at h self_at) node"
proof -
  have "fst (logic_parse_heap self_at h node) = logic_parse (policy_at h self_at) node"
    using logic_parse_heap_result(1) [OF assms, of node] by (cases "logic_parse_heap self_at h node") simp
  then show ?thesis
    using sql_parse_heap_same_policy [OF assms, of j a]
      logic_parse_heap_same_policy [OF assms, of node]
      sql_parse_heap_result [OF assms, of j a]
    by (simp add: policy_at_same) (simp add: same_policy_def)
qed

theorem policy_objects_unchanged_witness:
  "cells (snd (sql_parse_heap 0 aggregate_request 7 scenario_heap)) 0
     = InstanceObj scenario_attributes
   \<and> cells (snd (sql_parse_heap 0 aggregate_request 7 scenario_heap)) 2 = ListObj [PStr ''*'']
   \<and> cells (snd (sql_parse_heap 0 aggregate_request 7 scenario_heap)) 7
     = ListObj [PStr ''COUNT(*)'']
   \<and> cells (snd (sql_parse_heap 0 aggregate_request 2 scenario_heap)) 2 = ListObj [PStr ''*'']
   \<and> cells (snd (logic_parse_heap 0 scenario_heap scenario_logic)) 5
     = ColumnsObj [(''creature'', KStr), (''userID'', KInt)]"
  using policy_objects_unchanged [OF scenario_heap_well_typed, of aggregate_request 7 scenario_logic]
    policy_objects_unchanged [OF scenario_heap_well_typed, of aggregate_request 2 scenario_logic]
    scenario_heap_objects scenario_heap_rewrite
  by (simp add: scenario_heap_def scenario_cells_def)

text \<open>
  C10, as amended. For every policy, every known column \<open>c\<close> other than \<open>AND\<close> and \<open>OR\<close>,
  every simple comparator and every string operand \<open>v\<close> that is a key of
  \<open>allowed_columns\<close>, \<open>logic_parse\<close> on \<open>{c: {op: v}}\<close> returns the text \<open>c op' v\<close>, with
  \<open>op'\<close> the normalised comparator, and no parameter, whatever the declared kind of \<open>c\<close>.
\<close>

theorem column_operand_embedded:
  assumes "map_of cols c \<noteq> None" and "c \<noteq> ''AND''" and "c \<noteq> ''OR''"
    and "op \<in> set (COMPARISON (policy qs its td cs cols))"
    and "map_of cols v \<noteq> None"
  shows "logic_parse (policy qs its td cs cols) (PDict [(c, PDict [(op, PStr v)])])
    = Ok (c @ '' '' @ normalize_comparator op @ '' '' @ v) []"
  using assms by (auto simp add: compiler_defs normalize_comparator_def)

theorem column_operand_embedded_witness:
  "logic_parse scenario_policy (PDict [(''creature'', PDict [(''!='', PStr ''userID'')])])
     = Ok ''creature <> userID'' []"
  using column_operand_embedded [of "[(''creature'', KStr), (''userID'', KInt)]" "''creature''"
      "''!=''" "[''SELECT'']" "[''*'']" "[(''images'', [])]" "[''WHERE'']" "''userID''"]
  by (simp add: scenario_policy_def policy_def normalize_comparator_def)

text \<open>
  C10 as stated fails for a column named like a connector: with \<open>AND\<close> declared as a
  string column, \<open>{"AND": {"=": "AND"}}\<close> is refused as a logical node whose value is no
  list.
\<close>

theorem connector_named_column_counterexample:
  "map_of (ALLOWED_COLUMNS (policy [] [] [] [] [(''AND'', KStr)])) ''AND'' = Some KStr
   \<and> logic_parse (policy [] [] [] [] [(''AND'', KStr)])
        (PDict [(''AND'', PDict [(''='', PStr ''AND'')])])
     = Fail ''Bad AND, non list''"
  by code_simp

end
